theory Spec2Isabelle
  imports Complex_Main
begin

section \<open>The Go calculator: tokenizer, Shunting Yard converter, postfix evaluator\<close>

text \<open>
  A shallow embedding of \<^verbatim>\<open>calc.go\<close>. Go strings are byte sequences and are
  modelled as \<^typ>\<open>string\<close> (a list of 8-bit characters). A Go function returning
  \<^verbatim>\<open>(T, error)\<close> is a function into \<open>error + T\<close>, with \<open>Inl\<close> the error.
  The operator stack and the value stack are lists whose head is the top of the stack
  (\<^verbatim>\<open>stack[len(stack)-1]\<close> is the head, \<^verbatim>\<open>append(stack, x)\<close> is \<open>x # stack\<close>);
  the token and postfix slices are lists in slice order (\<^verbatim>\<open>append(xs, x)\<close> is
  \<open>xs @ [x]\<close>).
\<close>

subsection \<open>Errors\<close>

text \<open>
  The four sentinel errors of the source keep their names; every \<^verbatim>\<open>fmt.Errorf\<close>
  call site is one more constructor, carrying the text that is formatted into the message.
\<close>

datatype error =
    errInvalidOperator
  | errDivideByZero
  | errInsufficientValues
  | errMismatchedParens
  | UnmatchedFunctionParens        \<comment> \<open>"unmatched function parentheses"\<close>
  | InvalidCharacter char          \<comment> \<open>"invalid character: %s"\<close>
  | InvalidToken string            \<comment> \<open>"invalid token: %s"\<close>
  | InvalidNumber string           \<comment> \<open>"invalid number: %s"\<close>
  | ErrorEvaluatingExpression      \<comment> \<open>"error evaluating expression"\<close>
  | InvalidFunctionFormat string   \<comment> \<open>"invalid function format: %s"\<close>
  | InvalidFunctionArgument string \<comment> \<open>"invalid function argument: %s"\<close>
  | UnsupportedFunction string     \<comment> \<open>"unsupported function: %s"\<close>

subsection \<open>Constants and tables\<close>

definition addOperator :: string where "addOperator = ''+''"
definition subtractOperator :: string where "subtractOperator = ''-''"
definition multiplyOperator :: string where "multiplyOperator = ''*''"
definition divideOperator :: string where "divideOperator = ''/''"
definition powerOperator :: string where "powerOperator = ''^''"
definition leftParen :: string where "leftParen = ''(''"
definition rightParen :: string where "rightParen = '')''"

text \<open>
  \<^verbatim>\<open>precedence\<close> and \<^verbatim>\<open>associativity\<close> are Go maps; reading a key that is not
  in the map gives the zero value of the element type (\<open>0\<close>, the empty string).
\<close>

definition precedence :: "string \<Rightarrow> int" where
  "precedence token =
     (if token = addOperator then 1
      else if token = subtractOperator then 1
      else if token = multiplyOperator then 2
      else if token = divideOperator then 2
      else if token = powerOperator then 3
      else 0)"

definition associativity :: "string \<Rightarrow> string" where
  "associativity token =
     (if token = addOperator then ''L''
      else if token = subtractOperator then ''L''
      else if token = multiplyOperator then ''L''
      else if token = divideOperator then ''L''
      else if token = powerOperator then ''R''
      else [])"

definition isOperatorOrParen :: "string \<Rightarrow> bool" where
  "isOperatorOrParen token \<longleftrightarrow>
     token = addOperator \<or> token = subtractOperator \<or> token = multiplyOperator \<or>
     token = divideOperator \<or> token = powerOperator \<or> token = leftParen \<or>
     token = rightParen"

definition isOperator :: "string \<Rightarrow> bool" where
  "isOperator token \<longleftrightarrow>
     isOperatorOrParen token \<and> token \<noteq> leftParen \<and> token \<noteq> rightParen"

text \<open>\<^verbatim>\<open>strings.HasPrefix\<close>.\<close>

definition HasPrefix :: "string \<Rightarrow> string \<Rightarrow> bool" where
  "HasPrefix s p \<longleftrightarrow> take (length p) s = p"

definition isFunction :: "string \<Rightarrow> bool" where
  "isFunction token \<longleftrightarrow>
     HasPrefix token ''sin('' \<or> HasPrefix token ''cos('' \<or>
     HasPrefix token ''tan('' \<or> HasPrefix token ''sqrt(''"

subsection \<open>Tokenizer\<close>

text \<open>
  \<^verbatim>\<open>unicode.IsDigit(rune(input[i]))\<close>: the argument is one byte, so a code point up
  to U+00FF, where the only decimal digits are \<open>0\<close> to \<open>9\<close>.
\<close>

definition IsDigit :: "char \<Rightarrow> bool" where
  "IsDigit c \<longleftrightarrow> c \<in> set ''0123456789''"

text \<open>
  \<^verbatim>\<open>functionRegex.FindString(input[i:])\<close> for the anchored pattern
  \<^verbatim>\<open>^(sin|cos|tan|sqrt)\(\<close>: the matched prefix, or the empty string.
\<close>

definition functionRegex :: "string \<Rightarrow> string" where
  "functionRegex s =
     (if HasPrefix s ''sin('' then ''sin(''
      else if HasPrefix s ''cos('' then ''cos(''
      else if HasPrefix s ''tan('' then ''tan(''
      else if HasPrefix s ''sqrt('' then ''sqrt(''
      else [])"

text \<open>
  The inner loop of \<^verbatim>\<open>tokenize\<close> that looks for the parenthesis closing a function
  call. The argument is \<^verbatim>\<open>input[j:]\<close>; the result is the final \<^verbatim>\<open>count\<close> and
  \<^verbatim>\<open>input[j:]\<close> for the final \<^verbatim>\<open>j\<close>.
\<close>

fun scanParens :: "nat \<Rightarrow> string \<Rightarrow> nat \<times> string" where
  "scanParens count [] = (count, [])"
| "scanParens count (ch # rest) =
     (if count > 0
      then scanParens (if ch = CHR ''('' then count + 1
                       else if ch = CHR '')'' then count - 1
                       else count) rest
      else (count, ch # rest))"

lemma scanParens_length: "length (snd (scanParens count s)) \<le> length s"
  by (induction s arbitrary: count) (auto intro: le_SucI)

text \<open>
  The main loop of \<^verbatim>\<open>tokenize\<close>. The first argument is \<^verbatim>\<open>input[i:]\<close>, the
  second the contents of the builder \<^verbatim>\<open>number\<close>, the third \<^verbatim>\<open>tokens\<close>.
\<close>

definition flushNumber :: "string \<Rightarrow> string list \<Rightarrow> string list" where
  "flushNumber number tokens = (if length number > 0 then tokens @ [number] else tokens)"

function tokenizeLoop :: "string \<Rightarrow> string \<Rightarrow> string list \<Rightarrow> error + string list" where
  "tokenizeLoop [] number tokens = Inr (flushNumber number tokens)"
| "tokenizeLoop (char # rest) number tokens =
     (if IsDigit char \<or> char = CHR ''.''
      then tokenizeLoop rest (number @ [char]) tokens
      else
        if isOperatorOrParen [char]
        then tokenizeLoop rest [] (flushNumber number tokens @ [[char]])
        else
          let match = functionRegex (char # rest) in
          if match \<noteq> []
          then
            (case scanParens 1 (drop (length match) (char # rest)) of
               (count, after) \<Rightarrow>
                 if count = 0
                 then tokenizeLoop after []
                        (flushNumber number tokens @
                           [take (length (char # rest) - length after) (char # rest)])
                 else Inl UnmatchedFunctionParens)
          else Inl (InvalidCharacter char))"
  by pat_completeness auto
termination
  apply (relation "measure (\<lambda>(input, number, tokens). length input)")
     apply simp_all
  subgoal for char rest x xa y
    using scanParens_length [of "Suc 0" "drop (length (functionRegex (char # rest))) (char # rest)"]
    by (cases "functionRegex (char # rest)") (auto simp: snd_def split: prod.splits)
  done

definition tokenize :: "string \<Rightarrow> error + string list" where
  "tokenize input = tokenizeLoop input [] []"

subsection \<open>Floating-point numbers\<close>

text \<open>
  The calculator computes with Go's \<^verbatim>\<open>float64\<close> and calls \<^verbatim>\<open>strconv.ParseFloat\<close>
  and the \<^verbatim>\<open>math\<close> package, none of which is code of the repository. The type of
  numbers is therefore a type parameter \<open>'f\<close>, and the operations on it are the fields
  of a record that every function of the calculator takes as its first argument, in the
  place of the receiver \<^verbatim>\<open>c\<close>. A theorem stated for every such record holds for
  IEEE arithmetic with its rounding, whatever that arithmetic computes.
\<close>

record 'f float64 =
  nearest :: "real \<Rightarrow> 'f"        \<comment> \<open>the \<^verbatim>\<open>float64\<close> that \<^verbatim>\<open>ParseFloat\<close> returns for a decimal\<close>
  isZero :: "'f \<Rightarrow> bool"         \<comment> \<open>\<^verbatim>\<open>b == 0\<close>\<close>
  plus64 :: "'f \<Rightarrow> 'f \<Rightarrow> 'f"    \<comment> \<open>\<^verbatim>\<open>a + b\<close>\<close>
  minus64 :: "'f \<Rightarrow> 'f \<Rightarrow> 'f"   \<comment> \<open>\<^verbatim>\<open>a - b\<close>\<close>
  times64 :: "'f \<Rightarrow> 'f \<Rightarrow> 'f"   \<comment> \<open>\<^verbatim>\<open>a * b\<close>\<close>
  quo64 :: "'f \<Rightarrow> 'f \<Rightarrow> 'f"     \<comment> \<open>\<^verbatim>\<open>a / b\<close>\<close>
  Pow :: "'f \<Rightarrow> 'f \<Rightarrow> 'f"       \<comment> \<open>\<^verbatim>\<open>math.Pow\<close>\<close>
  Sin :: "'f \<Rightarrow> 'f"             \<comment> \<open>\<^verbatim>\<open>math.Sin\<close>\<close>
  Cos :: "'f \<Rightarrow> 'f"             \<comment> \<open>\<^verbatim>\<open>math.Cos\<close>\<close>
  Tan :: "'f \<Rightarrow> 'f"             \<comment> \<open>\<^verbatim>\<open>math.Tan\<close>\<close>
  Sqrt :: "'f \<Rightarrow> 'f"            \<comment> \<open>\<^verbatim>\<open>math.Sqrt\<close>\<close>

text \<open>
  \<^verbatim>\<open>strconv.ParseFloat(token, 64)\<close>, modelled on the strings that reach it from the
  tokenizer: a number token is a run of digits and decimal points, and every other token
  is a single operator or parenthesis character or begins with the letters of a function
  name, and is no floating-point literal. On a run of digits and points \<^verbatim>\<open>ParseFloat\<close> succeeds when
  there is at least one digit and at most one point, and the decimal is not so large that
  it rounds to infinity (\<^verbatim>\<open>ErrRange\<close>); the model returns \<open>None\<close> for every other
  string. Signs, exponents, hexadecimal literals, underscores and the words \<^verbatim>\<open>inf\<close>
  and \<^verbatim>\<open>nan\<close>, which \<^verbatim>\<open>ParseFloat\<close> also reads, are outside the model: the
  tokenizer never produces them.
\<close>

definition decimalSyntax :: "string \<Rightarrow> bool" where
  "decimalSyntax s \<longleftrightarrow>
     list_all (\<lambda>c. IsDigit c \<or> c = CHR ''.'') s \<and> list_ex IsDigit s \<and>
     length (filter (\<lambda>c. c = CHR ''.'') s) \<le> 1"

definition digitsValue :: "string \<Rightarrow> nat" where
  "digitsValue s = foldl (\<lambda>n c. 10 * n + (of_char c - 48)) 0 s"

definition decimalValue :: "string \<Rightarrow> real" where
  "decimalValue s =
     (let intPart = takeWhile (\<lambda>c. c \<noteq> CHR ''.'') s;
          fracPart = drop 1 (dropWhile (\<lambda>c. c \<noteq> CHR ''.'') s)
      in real (digitsValue (intPart @ fracPart)) / 10 ^ length fracPart)"

text \<open>
  The largest \<^verbatim>\<open>float64\<close> is \<open>2\<^sup>1\<^sup>0\<^sup>2\<^sup>4 - 2\<^sup>9\<^sup>7\<^sup>1\<close>; a decimal half a unit in the last
  place above it, or more, rounds to infinity.
\<close>

definition overflows64 :: "real \<Rightarrow> bool" where
  "overflows64 x \<longleftrightarrow> x \<ge> 2 ^ 1024 - 2 ^ 970"

definition ParseFloat :: "'f float64 \<Rightarrow> string \<Rightarrow> 'f option" where
  "ParseFloat F s =
     (if decimalSyntax s \<and> \<not> overflows64 (decimalValue s)
      then Some (nearest F (decimalValue s))
      else None)"

definition isNumber :: "'f float64 \<Rightarrow> string \<Rightarrow> bool" where
  "isNumber F token \<longleftrightarrow> ParseFloat F token \<noteq> None"

definition add :: "'f float64 \<Rightarrow> 'f \<Rightarrow> 'f \<Rightarrow> 'f" where
  "add F a b = plus64 F a b"

definition subtract :: "'f float64 \<Rightarrow> 'f \<Rightarrow> 'f \<Rightarrow> 'f" where
  "subtract F a b = minus64 F a b"

definition multiply :: "'f float64 \<Rightarrow> 'f \<Rightarrow> 'f \<Rightarrow> 'f" where
  "multiply F a b = times64 F a b"

definition divide_calc :: "'f float64 \<Rightarrow> 'f \<Rightarrow> 'f \<Rightarrow> error + 'f" where
  "divide_calc F a b = (if isZero F b then Inl errDivideByZero else Inr (quo64 F a b))"

definition power_calc :: "'f float64 \<Rightarrow> 'f \<Rightarrow> 'f \<Rightarrow> 'f" where
  "power_calc F a b = Pow F a b"

subsection \<open>Infix to postfix\<close>

text \<open>The loop of the operator branch: pop to the output while the top binds tighter.\<close>

fun popOperators :: "string \<Rightarrow> string list \<Rightarrow> string list \<Rightarrow> string list \<times> string list" where
  "popOperators token postfix [] = (postfix, [])"
| "popOperators token postfix (top1 # stack) =
     (if top1 \<noteq> leftParen \<and>
         ((associativity token = ''L'' \<and> precedence top1 \<ge> precedence token) \<or>
          (associativity token = ''R'' \<and> precedence top1 > precedence token))
      then popOperators token (postfix @ [top1]) stack
      else (postfix, top1 # stack))"

text \<open>The loop of the right-parenthesis branch: pop to the output down to a left parenthesis.\<close>

fun popToLeftParen :: "string list \<Rightarrow> string list \<Rightarrow> string list \<times> string list" where
  "popToLeftParen postfix [] = (postfix, [])"
| "popToLeftParen postfix (top1 # stack) =
     (if top1 \<noteq> leftParen
      then popToLeftParen (postfix @ [top1]) stack
      else (postfix, top1 # stack))"

text \<open>The loop over the tokens; the result is the output and the operator stack.\<close>

fun infixLoop ::
  "'f float64 \<Rightarrow> string list \<Rightarrow> string list \<Rightarrow> string list \<Rightarrow>
     error + (string list \<times> string list)" where
  "infixLoop F [] postfix stack = Inr (postfix, stack)"
| "infixLoop F (token # tokens) postfix stack =
     (if isNumber F token then infixLoop F tokens (postfix @ [token]) stack
      else if isFunction token then infixLoop F tokens postfix (token # stack)
      else if isOperator token then
        (case popOperators token postfix stack of
           (postfix1, stack1) \<Rightarrow> infixLoop F tokens postfix1 (token # stack1))
      else if token = leftParen then infixLoop F tokens postfix (token # stack)
      else if token = rightParen then
        (case popToLeftParen postfix stack of
           (postfix1, stack1) \<Rightarrow>
             if length stack1 = 0 then Inl errMismatchedParens
             else
               let stack2 = tl stack1 in
               if length stack2 > 0 \<and> isFunction (hd stack2)
               then infixLoop F tokens (postfix1 @ [hd stack2]) (tl stack2)
               else infixLoop F tokens postfix1 stack2)
      else Inl (InvalidToken token))"

text \<open>The final loop: pop what is left on the stack to the output.\<close>

fun drainStack :: "string list \<Rightarrow> string list \<Rightarrow> error + string list" where
  "drainStack postfix [] = Inr postfix"
| "drainStack postfix (top1 # stack) =
     (if top1 = leftParen then Inl errMismatchedParens
      else drainStack (postfix @ [top1]) stack)"

definition infixToPostfix :: "'f float64 \<Rightarrow> string list \<Rightarrow> error + string list" where
  "infixToPostfix F tokens =
     (case infixLoop F tokens [] [] of
        Inl err \<Rightarrow> Inl err
      | Inr (postfix, stack) \<Rightarrow> drainStack postfix stack)"

subsection \<open>String helpers of the evaluator\<close>

text \<open>\<^verbatim>\<open>strings.ReplaceAll(input, " ", "")\<close>.\<close>

definition removeSpaces :: "string \<Rightarrow> string" where
  "removeSpaces input = filter (\<lambda>c. c \<noteq> CHR '' '') input"

text \<open>\<^verbatim>\<open>strings.SplitN(token, "(", 2)\<close>: at most two parts, split at the first parenthesis.\<close>

definition SplitN :: "string \<Rightarrow> string list" where
  "SplitN token =
     (if CHR ''('' \<in> set token
      then [takeWhile (\<lambda>c. c \<noteq> CHR ''('') token, tl (dropWhile (\<lambda>c. c \<noteq> CHR ''('') token)]
      else [token])"

text \<open>\<^verbatim>\<open>strings.TrimSuffix(s, ")")\<close>.\<close>

definition TrimSuffix :: "string \<Rightarrow> string" where
  "TrimSuffix s = (if s \<noteq> [] \<and> last s = CHR '')'' then butlast s else s)"

subsection \<open>Sizes: what the recursion through function arguments decreases\<close>

lemma scanParens_suffix: "\<exists>pre. s = pre @ snd (scanParens count s)"
proof (induction s arbitrary: count)
  case Nil
  show ?case by simp
next
  case (Cons ch rest)
  show ?case
  proof (cases "count > 0")
    case True
    let ?c = "if ch = CHR ''('' then count + 1 else if ch = CHR '')'' then count - 1 else count"
    from Cons.IH [of ?c] obtain pre where "rest = pre @ snd (scanParens ?c rest)" ..
    then have "ch # rest = (ch # pre) @ snd (scanParens count (ch # rest))"
      using True by simp
    then show ?thesis ..
  next
    case False
    then have "ch # rest = [] @ snd (scanParens count (ch # rest))" by simp
    then show ?thesis ..
  qed
qed

lemma scanParens_take_drop:
  assumes "scanParens count (drop n s) = (count1, after)"
  shows "take (length s - length after) s @ after = s"
proof -
  from scanParens_suffix [of "drop n s" count] assms
  obtain pre where pre: "drop n s = pre @ after" by auto
  have "s = take n s @ pre @ after"
    using pre by (metis append_take_drop_id)
  then have "s = (take n s @ pre) @ after" by simp
  then obtain whole where whole: "s = whole @ after" ..
  then have "take (length s - length after) s = whole" by simp
  with whole show ?thesis by simp
qed

lemma tokenizeLoop_concat:
  "tokenizeLoop s number tokens = Inr ts \<Longrightarrow> concat ts = concat tokens @ number @ s"
proof (induction s number tokens arbitrary: ts rule: tokenizeLoop.induct)
  case (1 number tokens)
  then show ?case by (auto simp: flushNumber_def)
next
  case (2 char rest number tokens)
  show ?case
  proof (cases "IsDigit char \<or> char = CHR ''.''")
    case True
    with 2 show ?thesis by simp
  next
    case notDigit: False
    show ?thesis
    proof (cases "isOperatorOrParen [char]")
      case True
      with notDigit "2.prems" have "tokenizeLoop rest [] (flushNumber number tokens @ [[char]]) = Inr ts"
        by simp
      from "2.IH"(2) [OF notDigit True this] show ?thesis
        by (simp add: flushNumber_def)
    next
      case notOp: False
      obtain count after where scan:
        "scanParens 1 (drop (length (functionRegex (char # rest))) (char # rest)) = (count, after)"
        by (cases "scanParens 1 (drop (length (functionRegex (char # rest))) (char # rest))")
      from "2.prems" notDigit notOp scan have m: "functionRegex (char # rest) \<noteq> []"
        by (auto simp: Let_def split: if_splits)
      from "2.prems" notDigit notOp scan m have c0: "count = 0"
        by (auto simp: Let_def split: if_splits)
      let ?tok = "take (length (char # rest) - length after) (char # rest)"
      from "2.prems" notDigit notOp scan m c0
      have run: "tokenizeLoop after [] (flushNumber number tokens @ [?tok]) = Inr ts"
        by (simp add: Let_def)
      have "concat ts = concat (flushNumber number tokens @ [?tok]) @ [] @ after"
        by (rule "2.IH"(3) [OF notDigit notOp refl m scan [symmetric] c0 run])
      moreover have "?tok @ after = char # rest"
        using scan by (rule scanParens_take_drop)
      ultimately show ?thesis
        by (simp add: flushNumber_def)
    qed
  qed
qed

lemma tokenize_concat: "tokenize input = Inr tokens \<Longrightarrow> concat tokens = input"
  using tokenizeLoop_concat [of input "[]" "[]" tokens] by (simp add: tokenize_def)

lemma popOperators_size:
  "popOperators token postfix stack = (postfix1, stack1) \<Longrightarrow>
     length (concat postfix1) + length (concat stack1) =
     length (concat postfix) + length (concat stack)"
  by (induction token postfix stack rule: popOperators.induct) (auto split: if_splits)

lemma popToLeftParen_size:
  "popToLeftParen postfix stack = (postfix1, stack1) \<Longrightarrow>
     length (concat postfix1) + length (concat stack1) =
     length (concat postfix) + length (concat stack)"
  by (induction postfix stack rule: popToLeftParen.induct) (auto split: if_splits)

lemma drainStack_size:
  "drainStack postfix stack = Inr postfix1 \<Longrightarrow>
     length (concat postfix1) = length (concat postfix) + length (concat stack)"
  by (induction postfix stack rule: drainStack.induct) (auto split: if_splits)

lemma infixLoop_size:
  "infixLoop F tokens postfix stack = Inr (postfix1, stack1) \<Longrightarrow>
     length (concat postfix1) + length (concat stack1) \<le>
     length (concat tokens) + length (concat postfix) + length (concat stack)"
proof (induction F tokens postfix stack rule: infixLoop.induct)
  case (1 F postfix stack)
  then show ?case by simp
next
  case (2 F token tokens postfix stack)
  show ?case
  proof (cases "isNumber F token")
    case True
    with 2 show ?thesis by simp
  next
    case notNum: False
    show ?thesis
    proof (cases "isFunction token")
      case True
      with 2 notNum show ?thesis by simp
    next
      case notFun: False
      show ?thesis
      proof (cases "isOperator token")
        case True
        obtain p1 s1 where pop: "popOperators token postfix stack = (p1, s1)"
          by (cases "popOperators token postfix stack")
        with "2.prems" notNum notFun True
        have "infixLoop F tokens p1 (token # s1) = Inr (postfix1, stack1)" by simp
        from "2.IH"(3) [OF notNum notFun True pop [symmetric] this] popOperators_size [OF pop]
        show ?thesis by simp
      next
        case notOp: False
        show ?thesis
        proof (cases "token = leftParen")
          case True
          with 2 notNum notFun notOp show ?thesis by simp
        next
          case notLeft: False
          with "2.prems" notNum notFun notOp have right: "token = rightParen"
            by (auto split: if_splits)
          obtain p1 s1 where pop: "popToLeftParen postfix stack = (p1, s1)"
            by (cases "popToLeftParen postfix stack")
          with "2.prems" notNum notFun notOp notLeft right have ne: "length s1 \<noteq> 0"
            by (auto split: if_splits)
          then obtain l s2 where s1: "s1 = l # s2" by (cases s1) auto
          note sz = popToLeftParen_size [OF pop]
          show ?thesis
          proof (cases "length s2 > 0 \<and> isFunction (hd s2)")
            case True
            then obtain f s3 where s2: "s2 = f # s3" by (cases s2) auto
            from "2.prems" notNum notFun notOp notLeft right pop s1 s2 True
            have "infixLoop F tokens (p1 @ [f]) s3 = Inr (postfix1, stack1)" by simp
            from "2.IH"(5) [OF notNum notFun notOp notLeft right pop [symmetric] ne _ True]
              this s1 s2 sz
            show ?thesis by simp
          next
            case False
            from "2.prems" notNum notFun notOp notLeft right pop s1 False
            have "infixLoop F tokens p1 s2 = Inr (postfix1, stack1)" by auto
            from "2.IH"(6) [OF notNum notFun notOp notLeft right pop [symmetric] ne _ False]
              this s1 sz
            show ?thesis by simp
          qed
        qed
      qed
    qed
  qed
qed

lemma infixToPostfix_size:
  assumes "infixToPostfix F tokens = Inr postfix"
  shows "length (concat postfix) \<le> length (concat tokens)"
proof -
  from assms obtain p s where loop: "infixLoop F tokens [] [] = Inr (p, s)"
    and drain: "drainStack p s = Inr postfix"
    by (auto simp: infixToPostfix_def split: sum.splits prod.splits)
  from infixLoop_size [OF loop] drainStack_size [OF drain] show ?thesis by simp
qed

lemma SplitN_TrimSuffix_size:
  assumes "SplitN token = [funcName, rest]"
  shows "length (TrimSuffix rest) < length token"
proof -
  from assms have paren: "CHR ''('' \<in> set token"
    and rest: "rest = tl (dropWhile (\<lambda>c. c \<noteq> CHR ''('') token)"
    by (auto simp: SplitN_def split: if_splits)
  from paren have "dropWhile (\<lambda>c. c \<noteq> CHR ''('') token \<noteq> []" by simp
  then have "length rest < length (dropWhile (\<lambda>c. c \<noteq> CHR ''('') token)"
    using rest by (cases "dropWhile (\<lambda>c. c \<noteq> CHR ''('') token") auto
  also have "\<dots> \<le> length token" by (rule length_dropWhile_le)
  finally have "length rest < length token" .
  moreover have "length (TrimSuffix rest) \<le> length rest"
    by (simp add: TrimSuffix_def)
  ultimately show ?thesis by simp
qed

subsection \<open>Evaluation\<close>

text \<open>
  \<^verbatim>\<open>evaluateExpression\<close>, \<^verbatim>\<open>evaluatePostfix\<close> and \<^verbatim>\<open>evaluateFunction\<close> call one
  another: a function token of the postfix sequence is evaluated by running the whole
  pipeline on its argument. \<open>evaluatePostfixLoop\<close> is the \<^verbatim>\<open>for\<close> loop of
  \<^verbatim>\<open>evaluatePostfix\<close> with its value stack.
\<close>

function evaluateExpression :: "'f float64 \<Rightarrow> string \<Rightarrow> error + 'f"
  and evaluatePostfix :: "'f float64 \<Rightarrow> string list \<Rightarrow> error + 'f"
  and evaluatePostfixLoop :: "'f float64 \<Rightarrow> string list \<Rightarrow> 'f list \<Rightarrow> error + 'f"
  and evaluateFunction :: "'f float64 \<Rightarrow> string \<Rightarrow> error + 'f"
where
  "evaluateExpression F input =
     (case tokenize (removeSpaces input) of
        Inl err \<Rightarrow> Inl err
      | Inr tokens \<Rightarrow>
          (case infixToPostfix F tokens of
             Inl err \<Rightarrow> Inl err
           | Inr postfix \<Rightarrow> evaluatePostfix F postfix))"
| "evaluatePostfix F tokens = evaluatePostfixLoop F tokens []"
| "evaluatePostfixLoop F [] stack =
     (if length stack \<noteq> 1 then Inl ErrorEvaluatingExpression else Inr (hd stack))"
| "evaluatePostfixLoop F (token # tokens) stack =
     (if isNumber F token then
        (case ParseFloat F token of
           None \<Rightarrow> Inl (InvalidNumber token)
         | Some val \<Rightarrow> evaluatePostfixLoop F tokens (val # stack))
      else if isFunction token then
        (case evaluateFunction F token of
           Inl err \<Rightarrow> Inl err
         | Inr result \<Rightarrow> evaluatePostfixLoop F tokens (result # stack))
      else if isOperator token then
        (if length stack < 2 then Inl errInsufficientValues
         else
           let b = hd stack; stack1 = tl stack; a = hd stack1; stack2 = tl stack1 in
           if token = addOperator then
             evaluatePostfixLoop F tokens (add F a b # stack2)
           else if token = subtractOperator then
             evaluatePostfixLoop F tokens (subtract F a b # stack2)
           else if token = multiplyOperator then
             evaluatePostfixLoop F tokens (multiply F a b # stack2)
           else if token = divideOperator then
             (case divide_calc F a b of
                Inl err \<Rightarrow> Inl err
              | Inr result \<Rightarrow> evaluatePostfixLoop F tokens (result # stack2))
           else if token = powerOperator then
             evaluatePostfixLoop F tokens (power_calc F a b # stack2)
           else Inl errInvalidOperator)
      else Inl (InvalidToken token))"
| "evaluateFunction F token =
     (case SplitN token of
        [funcName, rest] \<Rightarrow>
          let argStr = TrimSuffix rest in
          (case evaluateExpression F argStr of
             Inl err \<Rightarrow> Inl (InvalidFunctionArgument argStr)
           | Inr arg \<Rightarrow>
               if funcName = ''sin'' then Inr (Sin F arg)
               else if funcName = ''cos'' then Inr (Cos F arg)
               else if funcName = ''tan'' then Inr (Tan F arg)
               else if funcName = ''sqrt'' then Inr (Sqrt F arg)
               else Inl (UnsupportedFunction funcName))
      | _ \<Rightarrow> Inl (InvalidFunctionFormat token))"
  by pat_completeness auto
text \<open>
  The recursion terminates: a call of \<open>evaluateExpression\<close> reaches, through the
  postfix sequence and a function token of it, only calls of \<open>evaluateExpression\<close> on
  strictly shorter strings. The order below compares first the length of the string (for
  a token sequence, of all its tokens together), then the four functions, then the number
  of tokens left to the loop. The predicate is the accessible part of the call relation
  of the four functions.
\<close>

lemma evaluate_terminates:
  "All evaluateExpression_evaluatePostfix_evaluatePostfixLoop_evaluateFunction_dom"
  apply (rule "evaluateExpression_evaluatePostfix_evaluatePostfixLoop_evaluateFunction.termination")
  apply (relation "measures
    [\<lambda>x. case x of
        Inl (Inl (F, input)) \<Rightarrow> length input
      | Inl (Inr (F, tokens)) \<Rightarrow> length (concat tokens)
      | Inr (Inl (F, tokens, stack)) \<Rightarrow> length (concat tokens)
      | Inr (Inr (F, token)) \<Rightarrow> length token,
     \<lambda>x. case x of
        Inl (Inl (F, input)) \<Rightarrow> 3
      | Inl (Inr (F, tokens)) \<Rightarrow> 2
      | Inr (Inl (F, tokens, stack)) \<Rightarrow> 1
      | Inr (Inr (F, token)) \<Rightarrow> 0,
     \<lambda>x. case x of
        Inr (Inl (F, tokens, stack)) \<Rightarrow> length tokens
      | _ \<Rightarrow> 0]")
    apply simp_all
  subgoal for F input tokens postfix
    using infixToPostfix_size [of F tokens postfix] tokenize_concat [of "removeSpaces input" tokens]
      length_filter_le [of "\<lambda>c. c \<noteq> CHR '' ''" input]
    by (simp add: removeSpaces_def del: length_filter_le length_concat) linarith
  subgoal by blast
  subgoal by (rule SplitN_TrimSuffix_size)
  done

termination evaluateExpression
  by (rule evaluate_terminates)

subsection \<open>An interpretation of the numbers without rounding\<close>

text \<open>
  For statements about concrete results the record is instantiated with exact arithmetic
  on the reals, extended by the two infinities and not-a-number of \<^verbatim>\<open>float64\<close>.
  The special cases are those documented for Go's operators and for \<^verbatim>\<open>math.Pow\<close>,
  \<^verbatim>\<open>math.Sqrt\<close>, \<^verbatim>\<open>math.Sin\<close>, \<^verbatim>\<open>math.Cos\<close> and \<^verbatim>\<open>math.Tan\<close>. What the
  interpretation leaves out is rounding, overflow of a finite result to an infinity, and
  the sign of zero: it agrees with \<^verbatim>\<open>float64\<close> where operands and exact results are
  representable and no negative zero is involved, as with the small integers of the
  examples below.
\<close>

datatype exact64 = Fin real | PInf | NInf | NaN

fun exactNeg :: "exact64 \<Rightarrow> exact64" where
  "exactNeg (Fin a) = Fin (- a)"
| "exactNeg PInf = NInf"
| "exactNeg NInf = PInf"
| "exactNeg NaN = NaN"

fun exactPlus :: "exact64 \<Rightarrow> exact64 \<Rightarrow> exact64" where
  "exactPlus NaN b = NaN"
| "exactPlus a NaN = NaN"
| "exactPlus (Fin a) (Fin b) = Fin (a + b)"
| "exactPlus PInf NInf = NaN"
| "exactPlus NInf PInf = NaN"
| "exactPlus PInf b = PInf"
| "exactPlus NInf b = NInf"
| "exactPlus (Fin a) b = b"

definition exactMinus :: "exact64 \<Rightarrow> exact64 \<Rightarrow> exact64" where
  "exactMinus a b = exactPlus a (exactNeg b)"

text \<open>The infinity with the sign of a finite nonzero number, or its opposite.\<close>

definition infinityWithSign :: "real \<Rightarrow> exact64 \<Rightarrow> exact64" where
  "infinityWithSign a i = (if a = 0 then NaN else if a > 0 then i else exactNeg i)"

fun exactTimes :: "exact64 \<Rightarrow> exact64 \<Rightarrow> exact64" where
  "exactTimes NaN b = NaN"
| "exactTimes a NaN = NaN"
| "exactTimes (Fin a) (Fin b) = Fin (a * b)"
| "exactTimes (Fin a) b = infinityWithSign a b"
| "exactTimes a (Fin b) = infinityWithSign b a"
| "exactTimes PInf b = b"
| "exactTimes NInf b = exactNeg b"

fun exactQuo :: "exact64 \<Rightarrow> exact64 \<Rightarrow> exact64" where
  "exactQuo NaN b = NaN"
| "exactQuo a NaN = NaN"
| "exactQuo (Fin a) (Fin b) = (if b = 0 then infinityWithSign a PInf else Fin (a / b))"
| "exactQuo (Fin a) b = Fin 0"
| "exactQuo a (Fin b) = (if b < 0 then exactNeg a else a)"
| "exactQuo a b = NaN"

fun exactSqrt :: "exact64 \<Rightarrow> exact64" where
  "exactSqrt (Fin a) = (if a < 0 then NaN else Fin (sqrt a))"
| "exactSqrt PInf = PInf"
| "exactSqrt NInf = NaN"
| "exactSqrt NaN = NaN"

fun exactSin :: "exact64 \<Rightarrow> exact64" where
  "exactSin (Fin a) = Fin (sin a)"
| "exactSin a = NaN"

fun exactCos :: "exact64 \<Rightarrow> exact64" where
  "exactCos (Fin a) = Fin (cos a)"
| "exactCos a = NaN"

fun exactTan :: "exact64 \<Rightarrow> exact64" where
  "exactTan (Fin a) = Fin (tan a)"
| "exactTan a = NaN"

definition oddInteger :: "real \<Rightarrow> bool" where
  "oddInteger y \<longleftrightarrow> y = of_int \<lfloor>y\<rfloor> \<and> odd \<lfloor>y\<rfloor>"

fun exactPow :: "exact64 \<Rightarrow> exact64 \<Rightarrow> exact64" where
  "exactPow (Fin x) (Fin y) =
     (if y = 0 then Fin 1
      else if x = 1 then Fin 1
      else if x = 0 then (if y < 0 then PInf else Fin 0)
      else if x > 0 then Fin (x powr y)
      else if y \<noteq> of_int \<lfloor>y\<rfloor> then NaN
      else if odd \<lfloor>y\<rfloor> then Fin (- (\<bar>x\<bar> powr y))
      else Fin (\<bar>x\<bar> powr y))"
| "exactPow NaN (Fin y) = (if y = 0 then Fin 1 else NaN)"
| "exactPow (Fin x) NaN = (if x = 1 then Fin 1 else NaN)"
| "exactPow a NaN = NaN"
| "exactPow NaN b = NaN"
| "exactPow (Fin x) PInf =
     (if \<bar>x\<bar> > 1 then PInf else if \<bar>x\<bar> < 1 then Fin 0 else Fin 1)"
| "exactPow (Fin x) NInf =
     (if \<bar>x\<bar> > 1 then Fin 0 else if \<bar>x\<bar> < 1 then PInf else Fin 1)"
| "exactPow a PInf = PInf"
| "exactPow a NInf = Fin 0"
| "exactPow PInf (Fin y) = (if y = 0 then Fin 1 else if y > 0 then PInf else Fin 0)"
| "exactPow NInf (Fin y) =
     (if y = 0 then Fin 1
      else if y < 0 then Fin 0
      else if oddInteger y then NInf
      else PInf)"

definition exact :: "exact64 float64" where
  "exact = \<lparr> nearest = Fin, isZero = (\<lambda>b. b = Fin 0),
             plus64 = exactPlus, minus64 = exactMinus, times64 = exactTimes,
             quo64 = exactQuo, Pow = exactPow, Sin = exactSin, Cos = exactCos,
             Tan = exactTan, Sqrt = exactSqrt \<rparr>"

section \<open>Notions of the specification, and of the proofs\<close>

subsection \<open>Balanced parentheses and valid tokens\<close>

text \<open>
  The parentheses of a token sequence are unbalanced when, reading the parenthesis
  tokens from the left, a right parenthesis comes while none is open, or one is left
  open at the end. \<open>parenDepth\<close> counts the open ones, and is \<open>None\<close> in the first
  case. (The parentheses inside a function token are part of that token.)
\<close>

fun parenDepth :: "nat \<Rightarrow> string list \<Rightarrow> nat option" where
  "parenDepth depth [] = Some depth"
| "parenDepth depth (token # tokens) =
     (if token = leftParen then parenDepth (depth + 1) tokens
      else if token = rightParen then
        (if depth = 0 then None else parenDepth (depth - 1) tokens)
      else parenDepth depth tokens)"

definition balancedParens :: "string list \<Rightarrow> bool" where
  "balancedParens tokens \<longleftrightarrow> parenDepth 0 tokens = Some 0"

text \<open>The tokens that \<open>infixToPostfix\<close> accepts.\<close>

definition validToken :: "'f float64 \<Rightarrow> string \<Rightarrow> bool" where
  "validToken F token \<longleftrightarrow>
     isNumber F token \<or> isFunction token \<or> isOperator token \<or>
     token = leftParen \<or> token = rightParen"

text \<open>The number of left parentheses on the operator stack.\<close>

definition parenCount :: "string list \<Rightarrow> nat" where
  "parenCount stack = length (filter (\<lambda>t. t = leftParen) stack)"

subsection \<open>The reference evaluation of the specification\<close>

text \<open>
  The reference evaluation of an expression without parentheses and functions, given as
  its first number and the list of the following operators, each with its right-hand
  number: first the multiplications and divisions are carried out from left to right,
  which leaves the terms of a sum; then the additions and subtractions are carried out
  from left to right. A division by zero is the error of \<open>divide\<close>.
\<close>

fun refMulDiv ::
  "'f float64 \<Rightarrow> 'f \<Rightarrow> (string \<times> 'f) list \<Rightarrow> error + ('f \<times> (string \<times> 'f) list)" where
  "refMulDiv F v [] = Inr (v, [])"
| "refMulDiv F v ((oper, w) # rest) =
     (if oper = multiplyOperator then refMulDiv F (multiply F v w) rest
      else if oper = divideOperator then
        (case divide_calc F v w of
           Inl err \<Rightarrow> Inl err
         | Inr q \<Rightarrow> refMulDiv F q rest)
      else
        (case refMulDiv F w rest of
           Inl err \<Rightarrow> Inl err
         | Inr (t, terms) \<Rightarrow> Inr (v, (oper, t) # terms)))"

fun refAddSub :: "'f float64 \<Rightarrow> 'f \<Rightarrow> (string \<times> 'f) list \<Rightarrow> 'f" where
  "refAddSub F acc [] = acc"
| "refAddSub F acc ((oper, t) # terms) =
     refAddSub F (if oper = addOperator then add F acc t else subtract F acc t) terms"

definition reference :: "'f float64 \<Rightarrow> 'f \<Rightarrow> (string \<times> 'f) list \<Rightarrow> error + 'f" where
  "reference F v rest =
     (case refMulDiv F v rest of
        Inl err \<Rightarrow> Inl err
      | Inr (t, terms) \<Rightarrow> Inr (refAddSub F t terms))"

text \<open>
  The tokens of such an expression, given as its first number token and the list of the
  following operator tokens, each with the number token to its right; the values of
  those number tokens; and the pipeline on a token sequence, from the start and from a
  given state of the converter (its output and its operator stack).
\<close>

definition restTokens :: "(string \<times> string) list \<Rightarrow> string list" where
  "restTokens rest = concat (map (\<lambda>(oper, y). [oper, y]) rest)"

definition exprTokens :: "string \<Rightarrow> (string \<times> string) list \<Rightarrow> string list" where
  "exprTokens x rest = x # restTokens rest"

definition restValues :: "'f float64 \<Rightarrow> (string \<times> string) list \<Rightarrow> (string \<times> 'f) list" where
  "restValues F rest = map (\<lambda>(oper, y). (oper, the (ParseFloat F y))) rest"

definition pipelineFrom ::
  "'f float64 \<Rightarrow> string list \<Rightarrow> string list \<Rightarrow> string list \<Rightarrow> error + 'f" where
  "pipelineFrom F tokens postfix stack =
     (case infixLoop F tokens postfix stack of
        Inl err \<Rightarrow> Inl err
      | Inr (postfix1, stack1) \<Rightarrow>
          (case drainStack postfix1 stack1 of
             Inl err \<Rightarrow> Inl err
           | Inr postfix2 \<Rightarrow> evaluatePostfix F postfix2))"

definition pipeline :: "'f float64 \<Rightarrow> string list \<Rightarrow> error + 'f" where
  "pipeline F tokens =
     (case infixToPostfix F tokens of
        Inl err \<Rightarrow> Inl err
      | Inr postfix \<Rightarrow> evaluatePostfix F postfix)"

subsection \<open>The state of the converter on an expression without parentheses\<close>

text \<open>
  The value stack that the loop of \<open>evaluatePostfix\<close> has built when it reaches the end
  of a token sequence: the loop, without the final test.
\<close>

fun postfixStack :: "'f float64 \<Rightarrow> string list \<Rightarrow> 'f list \<Rightarrow> error + 'f list" where
  "postfixStack F [] stack = Inr stack"
| "postfixStack F (token # tokens) stack =
     (if isNumber F token then
        (case ParseFloat F token of
           None \<Rightarrow> Inl (InvalidNumber token)
         | Some val \<Rightarrow> postfixStack F tokens (val # stack))
      else if isFunction token then
        (case evaluateFunction F token of
           Inl err \<Rightarrow> Inl err
         | Inr result \<Rightarrow> postfixStack F tokens (result # stack))
      else if isOperator token then
        (if length stack < 2 then Inl errInsufficientValues
         else
           let b = hd stack; stack1 = tl stack; a = hd stack1; stack2 = tl stack1 in
           if token = addOperator then
             postfixStack F tokens (add F a b # stack2)
           else if token = subtractOperator then
             postfixStack F tokens (subtract F a b # stack2)
           else if token = multiplyOperator then
             postfixStack F tokens (multiply F a b # stack2)
           else if token = divideOperator then
             (case divide_calc F a b of
                Inl err \<Rightarrow> Inl err
              | Inr result \<Rightarrow> postfixStack F tokens (result # stack2))
           else if token = powerOperator then
             postfixStack F tokens (power_calc F a b # stack2)
           else Inl errInvalidOperator)
      else Inl (InvalidToken token))"

text \<open>The two classes of operators of such an expression.\<close>

definition additive :: "string \<Rightarrow> bool" where
  "additive oper \<longleftrightarrow> oper = addOperator \<or> oper = subtractOperator"

definition multiplicative :: "string \<Rightarrow> bool" where
  "multiplicative oper \<longleftrightarrow> oper = multiplyOperator \<or> oper = divideOperator"

text \<open>
  While the converter reads such an expression, the operator stack holds at most one
  multiplicative operator above at most one additive operator, and the output read so
  far evaluates to a value stack of the same shape: the right operand \<open>w\<close> of the pending
  multiplicative operator, the current term \<open>t\<close>, and the sum \<open>acc\<close> of the terms before
  the pending additive operator.
\<close>

definition opStack :: "(string \<times> 'f) option \<Rightarrow> ('f \<times> string) option \<Rightarrow> string list" where
  "opStack pending accop =
     (case pending of None \<Rightarrow> [] | Some (m, w) \<Rightarrow> [m]) @
     (case accop of None \<Rightarrow> [] | Some (acc, a) \<Rightarrow> [a])"

definition valStack :: "(string \<times> 'f) option \<Rightarrow> 'f \<Rightarrow> ('f \<times> string) option \<Rightarrow> 'f list" where
  "valStack pending t accop =
     (case pending of None \<Rightarrow> [] | Some (m, w) \<Rightarrow> [w]) @ [t] @
     (case accop of None \<Rightarrow> [] | Some (acc, a) \<Rightarrow> [acc])"

definition wfState :: "(string \<times> 'f) option \<Rightarrow> ('f \<times> string) option \<Rightarrow> bool" where
  "wfState pending accop \<longleftrightarrow>
     (case pending of None \<Rightarrow> True | Some (m, w) \<Rightarrow> multiplicative m) \<and>
     (case accop of None \<Rightarrow> True | Some (acc, a) \<Rightarrow> additive a)"

text \<open>
  The reference evaluation continued from such a state: \<open>combine\<close> adds the current
  term to the sum before it, \<open>multiplied\<close> and \<open>flushPending\<close> carry out the pending
  multiplicative operation, and \<open>refCont\<close> evaluates what is left of the expression.
\<close>

definition combine :: "'f float64 \<Rightarrow> ('f \<times> string) option \<Rightarrow> 'f \<Rightarrow> 'f" where
  "combine F accop t =
     (case accop of
        None \<Rightarrow> t
      | Some (acc, a) \<Rightarrow> if a = addOperator then add F acc t else subtract F acc t)"

definition refCont ::
  "'f float64 \<Rightarrow> ('f \<times> string) option \<Rightarrow> 'f \<Rightarrow> (string \<times> 'f) list \<Rightarrow> error + 'f" where
  "refCont F accop t rest =
     (case refMulDiv F t rest of
        Inl err \<Rightarrow> Inl err
      | Inr (t1, terms) \<Rightarrow> Inr (refAddSub F (combine F accop t1) terms))"

definition multiplied :: "'f float64 \<Rightarrow> string \<Rightarrow> 'f \<Rightarrow> 'f \<Rightarrow> error + 'f" where
  "multiplied F m t w =
     (if m = multiplyOperator then Inr (multiply F t w) else divide_calc F t w)"

definition flushPending :: "'f float64 \<Rightarrow> (string \<times> 'f) option \<Rightarrow> 'f \<Rightarrow> error + 'f" where
  "flushPending F pending t =
     (case pending of None \<Rightarrow> Inr t | Some (m, w) \<Rightarrow> multiplied F m t w)"

subsection \<open>The binary operators\<close>

text \<open>
  The \<^verbatim>\<open>switch\<close> of \<open>evaluatePostfix\<close>: the result of a binary operator on its left
  operand \<open>a\<close> and its right operand \<open>b\<close>.
\<close>

definition applyOperator :: "'f float64 \<Rightarrow> string \<Rightarrow> 'f \<Rightarrow> 'f \<Rightarrow> error + 'f" where
  "applyOperator F token a b =
     (if token = addOperator then Inr (add F a b)
      else if token = subtractOperator then Inr (subtract F a b)
      else if token = multiplyOperator then Inr (multiply F a b)
      else if token = divideOperator then divide_calc F a b
      else if token = powerOperator then Inr (power_calc F a b)
      else Inl errInvalidOperator)"

section \<open>Properties\<close>

subsection \<open>Evaluating the definitions on concrete inputs\<close>

lemmas const_defs = addOperator_def subtractOperator_def multiplyOperator_def
  divideOperator_def powerOperator_def leftParen_def rightParen_def

lemmas token_defs = const_defs tokenize_def flushNumber_def IsDigit_def isOperatorOrParen_def
  isOperator_def isFunction_def HasPrefix_def functionRegex_def precedence_def
  associativity_def

lemmas number_defs = isNumber_def ParseFloat_def decimalSyntax_def decimalValue_def
  digitsValue_def overflows64_def

lemmas calc_defs = token_defs number_defs infixToPostfix_def removeSpaces_def SplitN_def
  TrimSuffix_def add_def subtract_def multiply_def divide_calc_def power_calc_def Let_def

lemmas exact_defs = exact_def exactMinus_def infinityWithSign_def

subsection \<open>The tokenizer keeps every character\<close>

text \<open>
  C10. When \<open>tokenize\<close> succeeds, the tokens it returns, concatenated in order, are the
  input string: no character is dropped, duplicated or moved.
\<close>

theorem tokenize_keeps_input: "tokenize input = Inr tokens \<Longrightarrow> concat tokens = input"
  by (rule tokenize_concat)

theorem tokenize_keeps_input_witness:
  "tokenize ''sqrt(sin(0)+1)*2.5-(4/.5)'' =
     Inr [''sqrt(sin(0)+1)'', ''*'', ''2.5'', ''-'', ''('', ''4'', ''/'', ''.5'', '')''] \<and>
   concat [''sqrt(sin(0)+1)'', ''*'', ''2.5'', ''-'', ''('', ''4'', ''/'', ''.5'', '')''] =
     ''sqrt(sin(0)+1)*2.5-(4/.5)''"
proof -
  have h: "tokenize ''sqrt(sin(0)+1)*2.5-(4/.5)'' =
     Inr [''sqrt(sin(0)+1)'', ''*'', ''2.5'', ''-'', ''('', ''4'', ''/'', ''.5'', '')'']"
    by (simp add: token_defs)
  from tokenize_keeps_input [OF h] h show ?thesis by simp
qed

subsection \<open>A leading minus sign\<close>

lemma tokenizeLoop_digits:
  "list_all (\<lambda>c. IsDigit c \<or> c = CHR ''.'') digits \<Longrightarrow>
     tokenizeLoop (digits @ rest) number tokens = tokenizeLoop rest (number @ digits) tokens"
  by (induction digits arbitrary: number) auto

lemma flushNumber_append: "flushNumber number (pre @ tokens) = pre @ flushNumber number tokens"
  by (simp add: flushNumber_def)

lemma tokenizeLoop_tokens:
  "tokenizeLoop s number (pre @ tokens) = map_sum id ((@) pre) (tokenizeLoop s number tokens)"
proof (induction s number tokens rule: tokenizeLoop.induct)
  case (1 number tokens)
  show ?case by (simp add: flushNumber_append)
next
  case (2 char rest number tokens)
  show ?case
  proof (cases "IsDigit char \<or> char = CHR ''.''")
    case True
    with 2 show ?thesis by simp
  next
    case notDigit: False
    show ?thesis
    proof (cases "isOperatorOrParen [char]")
      case True
      from "2.IH"(2) [OF notDigit True] notDigit True show ?thesis
        by (simp add: flushNumber_append)
    next
      case notOp: False
      obtain count after where scan:
        "scanParens 1 (drop (length (functionRegex (char # rest))) (char # rest)) = (count, after)"
        by (cases "scanParens 1 (drop (length (functionRegex (char # rest))) (char # rest))")
      show ?thesis
      proof (cases "functionRegex (char # rest) \<noteq> [] \<and> count = 0")
        case True
        then have m: "functionRegex (char # rest) \<noteq> []" and c0: "count = 0" by simp_all
        from "2.IH"(3) [OF notDigit notOp refl m scan [symmetric] c0] notDigit notOp scan m c0
        show ?thesis by (simp add: flushNumber_append Let_def)
      next
        case False
        with notDigit notOp scan show ?thesis by (auto simp: Let_def)
      qed
    qed
  qed
qed

lemma flushNumber_Nil: "flushNumber [] tokens = tokens"
  by (simp add: flushNumber_def)

lemma tokenizeLoop_flush:
  assumes "rest = [] \<or> \<not> (IsDigit (hd rest) \<or> hd rest = CHR ''.'')"
  shows "tokenizeLoop rest number tokens = tokenizeLoop rest [] (flushNumber number tokens)"
proof (cases rest)
  case Nil
  then show ?thesis by (simp add: flushNumber_def)
next
  case (Cons char rest')
  with assms have "\<not> (IsDigit char \<or> char = CHR ''.'')" by simp
  with Cons show ?thesis by (simp add: flushNumber_Nil Let_def split: prod.splits)
qed

lemma tokenize_after_number:
  assumes "number \<noteq> []" and "list_all (\<lambda>c. IsDigit c \<or> c = CHR ''.'') number"
    and "rest = [] \<or> \<not> (IsDigit (hd rest) \<or> hd rest = CHR ''.'')"
  shows "tokenizeLoop (number @ rest) [] tokens =
           map_sum id ((@) (tokens @ [number])) (tokenize rest)"
proof -
  have "tokenizeLoop (number @ rest) [] tokens = tokenizeLoop rest number tokens"
    using tokenizeLoop_digits [OF assms(2), of rest "[]" tokens] by simp
  also have "\<dots> = tokenizeLoop rest [] (tokens @ [number])"
    using tokenizeLoop_flush [OF assms(3), of number tokens] assms(1)
    by (simp add: flushNumber_def)
  also have "\<dots> = map_sum id ((@) (tokens @ [number])) (tokenizeLoop rest [] [])"
    using tokenizeLoop_tokens [of rest "[]" "tokens @ [number]" "[]"] by simp
  finally show ?thesis by (simp add: tokenize_def)
qed

text \<open>
  C6, as the claim states it, fails in one point: \<open>tokenize\<close> does not succeed on every
  input that begins with a minus sign and a number. On \<open>-5$\<close> it emits nothing and
  returns the error "invalid character: $".
\<close>

theorem tokenize_fails_after_minus:
  "tokenize ''-5$'' = Inl (InvalidCharacter CHR ''$'') \<and>
   tokenize ''$'' = Inl (InvalidCharacter CHR ''$'')"
  by (simp add: token_defs)

text \<open>
  C6, amended. A minus sign at the start of the input is tokenized as the ordinary
  subtract operator. For a number (a nonempty run of digits and decimal points) followed
  by anything that does not continue it, \<open>tokenize\<close> of the minus sign, the number and
  the rest emits the token \<open>-\<close>, the number token, and the tokens of the rest; it succeeds
  when the rest tokenizes and fails with the error of the rest otherwise, and on the
  minus sign and the number alone it always succeeds. The same two tokens are emitted
  when the minus sign stands between two numbers.
\<close>

theorem tokenize_leading_minus:
  assumes "number \<noteq> []" and "list_all (\<lambda>c. IsDigit c \<or> c = CHR ''.'') number"
    and "rest = [] \<or> \<not> (IsDigit (hd rest) \<or> hd rest = CHR ''.'')"
    and "left \<noteq> []" and "list_all (\<lambda>c. IsDigit c \<or> c = CHR ''.'') left"
  shows "tokenize (subtractOperator @ number) = Inr [subtractOperator, number] \<and>
         tokenize (subtractOperator @ number @ rest) =
           (case tokenize rest of
              Inl err \<Rightarrow> Inl err
            | Inr tokens \<Rightarrow> Inr (subtractOperator # number # tokens)) \<and>
         tokenize (left @ subtractOperator @ number @ rest) =
           (case tokenize rest of
              Inl err \<Rightarrow> Inl err
            | Inr tokens \<Rightarrow> Inr (left # subtractOperator # number # tokens))"
proof -
  have minus: "tokenizeLoop (subtractOperator @ s) [] tokens =
                 tokenizeLoop s [] (tokens @ [subtractOperator])" for s tokens
    by (simp add: token_defs)
  have lead: "tokenize (subtractOperator @ number @ r) =
                map_sum id ((@) [subtractOperator, number]) (tokenize r)"
    if "r = [] \<or> \<not> (IsDigit (hd r) \<or> hd r = CHR ''.'')" for r
    using minus [of "number @ r" "[]"] tokenize_after_number [OF assms(1,2) that, of "[subtractOperator]"]
    by (simp add: tokenize_def)
  have "subtractOperator @ number @ rest \<noteq> []" by (simp add: subtractOperator_def)
  have hd: "\<not> (IsDigit (hd (subtractOperator @ number @ rest)) \<or>
               hd (subtractOperator @ number @ rest) = CHR ''.'')"
    by (simp add: token_defs)
  have "tokenize (left @ subtractOperator @ number @ rest) =
          map_sum id ((@) [left]) (tokenize (subtractOperator @ number @ rest))"
    using tokenize_after_number [OF assms(4,5), of "subtractOperator @ number @ rest" "[]"] hd
    by (simp add: tokenize_def)
  then have between: "tokenize (left @ subtractOperator @ number @ rest) =
          map_sum id ((@) [left, subtractOperator, number]) (tokenize rest)"
    using lead [OF assms(3)] by (cases "tokenize rest") simp_all
  have "tokenize (subtractOperator @ number) = Inr [subtractOperator, number]"
    using lead [of "[]"] by (simp add: tokenize_def flushNumber_Nil)
  moreover have "tokenize (subtractOperator @ number @ rest) =
           (case tokenize rest of
              Inl err \<Rightarrow> Inl err
            | Inr tokens \<Rightarrow> Inr (subtractOperator # number # tokens))"
    using lead [OF assms(3)] by (cases "tokenize rest") simp_all
  moreover have "tokenize (left @ subtractOperator @ number @ rest) =
           (case tokenize rest of
              Inl err \<Rightarrow> Inl err
            | Inr tokens \<Rightarrow> Inr (left # subtractOperator # number # tokens))"
    using between by (cases "tokenize rest") simp_all
  ultimately show ?thesis by simp
qed

theorem tokenize_leading_minus_witness:
  "tokenize ''-5'' = Inr [''-'', ''5''] \<and>
   tokenize ''-5+3'' = Inr [''-'', ''5'', ''+'', ''3''] \<and>
   tokenize ''2-5+3'' = Inr [''2'', ''-'', ''5'', ''+'', ''3'']"
proof -
  have rest: "tokenize ''+3'' = Inr [''+'', ''3'']" by (simp add: token_defs)
  have "''5'' \<noteq> []" and "list_all (\<lambda>c. IsDigit c \<or> c = CHR ''.'') ''5''"
    and "''+3'' = [] \<or> \<not> (IsDigit (hd ''+3'') \<or> hd ''+3'' = CHR ''.'')"
    and "''2'' \<noteq> []" and "list_all (\<lambda>c. IsDigit c \<or> c = CHR ''.'') ''2''"
    by (simp_all add: IsDigit_def)
  from tokenize_leading_minus [OF this] rest show ?thesis
    by (simp add: subtractOperator_def)
qed

subsection \<open>Precedence and associativity\<close>

lemma isOperator_cases:
  "isOperator oper \<longleftrightarrow>
     oper = addOperator \<or> oper = subtractOperator \<or> oper = multiplyOperator \<or>
     oper = divideOperator \<or> oper = powerOperator"
  by (auto simp: isOperator_def isOperatorOrParen_def const_defs)

lemma operator_tokens:
  assumes "isOperator oper"
  shows "\<not> isNumber F oper" and "\<not> isFunction oper" and "oper \<noteq> leftParen"
  using assms
  by (auto simp: isOperator_cases token_defs number_defs)

lemma popOperators_left:
  assumes "isOperator oper" and "oper \<noteq> powerOperator" and "isOperator t"
  shows "popOperators oper postfix (t # stack) =
           (if precedence t \<ge> precedence oper
            then popOperators oper (postfix @ [t]) stack
            else (postfix, t # stack))"
proof -
  have "associativity oper = ''L''"
    using assms(1,2) by (auto simp: isOperator_cases associativity_def const_defs)
  moreover have "t \<noteq> leftParen"
    using assms(3) by (rule operator_tokens)
  ultimately show ?thesis by simp
qed

lemma popOperators_right:
  assumes "isOperator t"
  shows "popOperators powerOperator postfix (t # stack) = (postfix, t # stack)"
proof -
  have "associativity powerOperator = ''R''" and "precedence powerOperator = 3"
    by (simp_all add: associativity_def precedence_def const_defs)
  moreover have "precedence t \<le> 3"
    using assms by (auto simp: isOperator_cases precedence_def const_defs)
  ultimately show ?thesis by simp
qed

lemma three_operands:
  assumes "ParseFloat F x = Some a" and "ParseFloat F y = Some b" and "ParseFloat F z = Some c"
    and "isOperator oper1" and "isOperator oper2"
  shows "pipeline F [x, oper1, y, oper2, z] =
           (if precedence oper1 > precedence oper2 \<or>
               (precedence oper1 = precedence oper2 \<and> associativity oper2 = ''L'')
            then
              (case applyOperator F oper1 a b of
                 Inl err \<Rightarrow> Inl err
               | Inr r \<Rightarrow> applyOperator F oper2 r c)
            else
              (case applyOperator F oper2 b c of
                 Inl err \<Rightarrow> Inl err
               | Inr r \<Rightarrow> applyOperator F oper1 a r))"
proof -
  have ops: "\<not> isNumber F ''+''" "\<not> isNumber F ''-''" "\<not> isNumber F ''*''"
    "\<not> isNumber F ''/''" "\<not> isNumber F ''^''"
    by (simp_all add: number_defs IsDigit_def)
  have nums: "isNumber F x" "isNumber F y" "isNumber F z"
    using assms(1-3) by (simp_all add: isNumber_def)
  from assms(4,5) show ?thesis
    unfolding isOperator_cases
    using ops nums assms(1-3)
    by (elim disjE)
      (simp_all add: pipeline_def infixToPostfix_def applyOperator_def token_defs Let_def
        split: sum.splits)
qed

text \<open>
  C3. The precedences of \<open>+ - * / ^\<close> are 1, 1, 2, 2, 3; the first four operators are
  left-associative and \<open>^\<close> is right-associative. The loop of the operator branch acts
  on them: a left-associative operator pops an operator on top of the stack whose
  precedence is at least its own and goes on, and leaves one of lower precedence; \<open>^\<close>
  pops no operator, not even another \<open>^\<close>. So, for every three numbers and every two
  operators, the pipeline groups to the left when the first operator has the higher
  precedence, or the same precedence and the second is left-associative, and to the
  right otherwise: \<open>x - y - z\<close> is \<open>(x - y) - z\<close>, \<open>x / y / z\<close> is \<open>(x / y) / z\<close>,
  \<open>x * y + z\<close> is \<open>(x * y) + z\<close>, \<open>x + y * z\<close> is \<open>x + (y * z)\<close>, \<open>x * y ^ z\<close> is
  \<open>x * (y ^ z)\<close> and \<open>x ^ y ^ z\<close> is \<open>x ^ (y ^ z)\<close>, whatever the arithmetic. The tokens
  of \<open>2^3^2\<close> are converted to the postfix sequence \<open>2 3 2 ^ ^\<close>; without rounding the
  result is 512, not 64, and \<open>8-3-2\<close> is 3, \<open>2*3+4\<close> is 10 and \<open>2+3*4\<close> is 14.
\<close>

theorem power_right_associative:
  assumes "ParseFloat F x = Some a" and "ParseFloat F y = Some b" and "ParseFloat F z = Some c"
    and "isOperator oper1" and "isOperator oper2"
    and "isOperator left" and "left \<noteq> powerOperator" and "isOperator t"
  shows
    "precedence addOperator = 1 \<and> precedence subtractOperator = 1 \<and>
     precedence multiplyOperator = 2 \<and> precedence divideOperator = 2 \<and>
     precedence powerOperator = 3 \<and>
     associativity addOperator = ''L'' \<and> associativity subtractOperator = ''L'' \<and>
     associativity multiplyOperator = ''L'' \<and> associativity divideOperator = ''L'' \<and>
     associativity powerOperator = ''R'' \<and>
     popOperators left postfix (t # stack) =
       (if precedence t \<ge> precedence left
        then popOperators left (postfix @ [t]) stack
        else (postfix, t # stack)) \<and>
     popOperators powerOperator postfix (t # stack) = (postfix, t # stack) \<and>
     pipeline F [x, oper1, y, oper2, z] =
       (if precedence oper1 > precedence oper2 \<or>
           (precedence oper1 = precedence oper2 \<and> associativity oper2 = ''L'')
        then
          (case applyOperator F oper1 a b of
             Inl err \<Rightarrow> Inl err
           | Inr r \<Rightarrow> applyOperator F oper2 r c)
        else
          (case applyOperator F oper2 b c of
             Inl err \<Rightarrow> Inl err
           | Inr r \<Rightarrow> applyOperator F oper1 a r)) \<and>
     pipeline F [x, subtractOperator, y, subtractOperator, z] =
       Inr (subtract F (subtract F a b) c) \<and>
     pipeline F [x, divideOperator, y, divideOperator, z] =
       (case divide_calc F a b of
          Inl err \<Rightarrow> Inl err
        | Inr q \<Rightarrow> divide_calc F q c) \<and>
     pipeline F [x, multiplyOperator, y, addOperator, z] =
       Inr (add F (multiply F a b) c) \<and>
     pipeline F [x, addOperator, y, multiplyOperator, z] =
       Inr (add F a (multiply F b c)) \<and>
     pipeline F [x, multiplyOperator, y, powerOperator, z] =
       Inr (multiply F a (power_calc F b c)) \<and>
     pipeline F [x, powerOperator, y, powerOperator, z] =
       Inr (power_calc F a (power_calc F b c)) \<and>
     infixToPostfix F [''2'', ''^'', ''3'', ''^'', ''2''] = Inr [''2'', ''3'', ''2'', ''^'', ''^''] \<and>
     evaluateExpression F ''2^3^2'' =
       Inr (power_calc F (nearest F 2) (power_calc F (nearest F 3) (nearest F 2))) \<and>
     evaluateExpression exact ''2^3^2'' = Inr (Fin 512) \<and>
     evaluateExpression exact ''2^3^2'' \<noteq> Inr (Fin 64) \<and>
     evaluateExpression exact ''8-3-2'' = Inr (Fin 3) \<and>
     evaluateExpression exact ''2*3+4'' = Inr (Fin 10) \<and>
     evaluateExpression exact ''2+3*4'' = Inr (Fin 14)"
proof -
  have tables: "precedence addOperator = 1 \<and> precedence subtractOperator = 1 \<and>
      precedence multiplyOperator = 2 \<and> precedence divideOperator = 2 \<and>
      precedence powerOperator = 3 \<and>
      associativity addOperator = ''L'' \<and> associativity subtractOperator = ''L'' \<and>
      associativity multiplyOperator = ''L'' \<and> associativity divideOperator = ''L'' \<and>
      associativity powerOperator = ''R''"
    by (simp add: precedence_def associativity_def const_defs)
  have popLeft: "popOperators left postfix (t # stack) =
       (if precedence t \<ge> precedence left
        then popOperators left (postfix @ [t]) stack
        else (postfix, t # stack))"
    using assms(6,7,8) by (rule popOperators_left)
  have popRight: "popOperators powerOperator postfix (t # stack) = (postfix, t # stack)"
    using assms(8) by (rule popOperators_right)
  have ops: "isOperator addOperator" "isOperator subtractOperator"
    "isOperator multiplyOperator" "isOperator divideOperator" "isOperator powerOperator"
    by (simp_all add: isOperator_cases)
  note three = three_operands [OF assms(1-3)]
  have general: "pipeline F [x, oper1, y, oper2, z] =
       (if precedence oper1 > precedence oper2 \<or>
           (precedence oper1 = precedence oper2 \<and> associativity oper2 = ''L'')
        then
          (case applyOperator F oper1 a b of
             Inl err \<Rightarrow> Inl err
           | Inr r \<Rightarrow> applyOperator F oper2 r c)
        else
          (case applyOperator F oper2 b c of
             Inl err \<Rightarrow> Inl err
           | Inr r \<Rightarrow> applyOperator F oper1 a r))"
    using assms(4,5) by (rule three)
  have instances:
    "pipeline F [x, subtractOperator, y, subtractOperator, z] =
       Inr (subtract F (subtract F a b) c)"
    "pipeline F [x, divideOperator, y, divideOperator, z] =
       (case divide_calc F a b of
          Inl err \<Rightarrow> Inl err
        | Inr q \<Rightarrow> divide_calc F q c)"
    "pipeline F [x, multiplyOperator, y, addOperator, z] =
       Inr (add F (multiply F a b) c)"
    "pipeline F [x, addOperator, y, multiplyOperator, z] =
       Inr (add F a (multiply F b c))"
    "pipeline F [x, multiplyOperator, y, powerOperator, z] =
       Inr (multiply F a (power_calc F b c))"
    "pipeline F [x, powerOperator, y, powerOperator, z] =
       Inr (power_calc F a (power_calc F b c))"
    using three [OF ops(2) ops(2)] three [OF ops(4) ops(4)] three [OF ops(3) ops(1)]
      three [OF ops(1) ops(3)] three [OF ops(3) ops(5)] three [OF ops(5) ops(5)]
    by (simp_all add: applyOperator_def precedence_def associativity_def const_defs
        split: sum.splits)
  have postfix: "infixToPostfix F [''2'', ''^'', ''3'', ''^'', ''2''] =
      Inr [''2'', ''3'', ''2'', ''^'', ''^'']"
    by (simp add: calc_defs)
  have grouping: "evaluateExpression F ''2^3^2'' =
      Inr (power_calc F (nearest F 2) (power_calc F (nearest F 3) (nearest F 2)))"
    by (simp add: calc_defs)
  have results: "evaluateExpression exact ''2^3^2'' = Inr (Fin 512)"
    "evaluateExpression exact ''8-3-2'' = Inr (Fin 3)"
    "evaluateExpression exact ''2*3+4'' = Inr (Fin 10)"
    "evaluateExpression exact ''2+3*4'' = Inr (Fin 14)"
    by (simp_all add: calc_defs exact_defs)
  from tables popLeft popRight general instances postfix grouping results
  show ?thesis by simp
qed

theorem power_right_associative_witness:
  "ParseFloat exact ''8'' = Some (Fin 8) \<and> ParseFloat exact ''3'' = Some (Fin 3) \<and>
   ParseFloat exact ''2'' = Some (Fin 2) \<and>
   isOperator ''-'' \<and> isOperator ''^'' \<and> ''-'' \<noteq> powerOperator \<and>
   popOperators ''-'' [''8'', ''3''] [''-''] = ([''8'', ''3'', ''-''], []) \<and>
   popOperators powerOperator [''8'', ''3''] [''^''] = ([''8'', ''3''], [''^'']) \<and>
   pipeline exact [''8'', ''-'', ''3'', ''-'', ''2''] = Inr (Fin 3) \<and>
   pipeline exact [''8'', ''^'', ''3'', ''^'', ''2''] = Inr (Fin (8 ^ 9))"
proof -
  have x: "ParseFloat exact ''8'' = Some (Fin 8)" and y: "ParseFloat exact ''3'' = Some (Fin 3)"
    and z: "ParseFloat exact ''2'' = Some (Fin 2)"
    by (simp_all add: number_defs IsDigit_def exact_def)
  have m: "isOperator ''-''" and p: "isOperator ''^''" and n: "''-'' \<noteq> powerOperator"
    by (simp_all add: token_defs)
  note minus = power_right_associative [OF x y z m m m n m, of "[''8'', ''3'']" "[]"]
  note pow = power_right_associative [OF x y z p p m n p, of "[''8'', ''3'']" "[]"]
  from minus have "popOperators ''-'' [''8'', ''3''] [''-''] =
      (if precedence ''-'' \<ge> precedence ''-''
       then popOperators ''-'' ([''8'', ''3''] @ [''-'']) []
       else ([''8'', ''3''], [''-'']))"
    by (elim conjE)
  then have popLeft: "popOperators ''-'' [''8'', ''3''] [''-''] = ([''8'', ''3'', ''-''], [])"
    by simp
  from pow have popRight:
    "popOperators powerOperator [''8'', ''3''] [''^''] = ([''8'', ''3''], [''^''])"
    by (elim conjE)
  from minus have "pipeline exact [''8'', subtractOperator, ''3'', subtractOperator, ''2''] =
      Inr (subtract exact (subtract exact (Fin 8) (Fin 3)) (Fin 2))"
    by (elim conjE)
  then have sub: "pipeline exact [''8'', ''-'', ''3'', ''-'', ''2''] = Inr (Fin 3)"
    by (simp add: const_defs subtract_def exact_defs)
  from minus have "pipeline exact [''8'', powerOperator, ''3'', powerOperator, ''2''] =
      Inr (power_calc exact (Fin 8) (power_calc exact (Fin 3) (Fin 2)))"
    by (elim conjE)
  then have pw: "pipeline exact [''8'', ''^'', ''3'', ''^'', ''2''] = Inr (Fin (8 ^ 9))"
    by (simp add: const_defs power_calc_def exact_defs)
  from popLeft popRight sub pw x y z m p n show ?thesis by simp
qed

subsection \<open>Division by zero\<close>

text \<open>
  C4. \<open>divide\<close> with a right operand equal to zero returns the error
  \<open>errDivideByZero\<close> and no number, whatever the quotient operation would compute: the
  test comes first and the quotient is not formed. The postfix evaluator returns that
  error as soon as the operator \<open>/\<close> meets a zero on top of the value stack, and so does
  the expression \<open>5/0\<close>.
\<close>

theorem divide_by_zero:
  assumes "isZero F b" and "isZero F (nearest F 0)"
  shows "divide_calc F a b = Inl errDivideByZero \<and>
         divide_calc (F\<lparr>quo64 := q\<rparr>) a b = Inl errDivideByZero \<and>
         evaluatePostfixLoop F (divideOperator # tokens) (b # a # stack) = Inl errDivideByZero \<and>
         evaluateExpression F ''5/0'' = Inl errDivideByZero"
proof -
  have "divide_calc F a b = Inl errDivideByZero"
    using assms(1) by (simp add: divide_calc_def)
  moreover have "divide_calc (F\<lparr>quo64 := q\<rparr>) a b = Inl errDivideByZero"
    using assms(1) by (simp add: divide_calc_def)
  moreover have
    "evaluatePostfixLoop F (divideOperator # tokens) (b # a # stack) = Inl errDivideByZero"
    using assms(1) by (simp add: calc_defs)
  moreover have "evaluateExpression F ''5/0'' = Inl errDivideByZero"
    using assms(2) by (simp add: calc_defs)
  ultimately show ?thesis by simp
qed

theorem divide_by_zero_witness:
  "isZero exact (Fin 0) \<and> isZero exact (nearest exact 0) \<and>
   divide_calc exact (Fin 5) (Fin 0) = Inl errDivideByZero \<and>
   evaluatePostfixLoop exact [divideOperator] [Fin 0, Fin 5] = Inl errDivideByZero \<and>
   evaluateExpression exact ''5/0'' = Inl errDivideByZero"
proof -
  have z: "isZero exact (Fin 0)" and n: "isZero exact (nearest exact 0)"
    by (simp_all add: exact_def)
  from divide_by_zero [OF z n, of "Fin 5" exactQuo "[]" "[]"] z n show ?thesis by simp
qed

subsection \<open>Operand order of the binary operators\<close>



subsection \<open>Function tokens and their arguments\<close>

lemma isFunction_not_isNumber: "isFunction token \<Longrightarrow> \<not> isNumber F token"
  by (cases token) (auto simp: isFunction_def HasPrefix_def number_defs IsDigit_def)

text \<open>
  C1. The claim is that \<open>sqrt(sin(0)+1)\<close> evaluates to 1. The code returns an error
  instead, whatever the arithmetic. The argument \<open>sin(0)+1\<close> is tokenized to the function
  token \<open>sin(0)\<close>, the operator and the number; \<open>infixToPostfix\<close> pushes the function
  token, which already holds its argument, on the operator stack, where it stays until
  the end of the input, so that the postfix sequence is \<open>1 + sin(0)\<close> and the operator
  finds one value on the stack. The failure of the argument is reported for the outer
  call. With the operands exchanged the same expression evaluates to 1.
\<close>

theorem nested_function_fails:
  "tokenize ''sqrt(sin(0)+1)'' = Inr [''sqrt(sin(0)+1)''] \<and>
   tokenize ''sin(0)+1'' = Inr [''sin(0)'', ''+'', ''1''] \<and>
   infixToPostfix F [''sin(0)'', ''+'', ''1''] = Inr [''1'', ''+'', ''sin(0)''] \<and>
   evaluateExpression F ''sin(0)+1'' = Inl errInsufficientValues \<and>
   evaluateExpression F ''sqrt(sin(0)+1)'' = Inl (InvalidFunctionArgument ''sin(0)+1'') \<and>
   evaluateExpression exact ''sqrt(1+sin(0))'' = Inr (Fin 1)"
proof -
  have "tokenize ''sqrt(sin(0)+1)'' = Inr [''sqrt(sin(0)+1)'']"
    and "tokenize ''sin(0)+1'' = Inr [''sin(0)'', ''+'', ''1'']"
    by (simp_all add: token_defs)
  moreover have "infixToPostfix F [''sin(0)'', ''+'', ''1''] = Inr [''1'', ''+'', ''sin(0)'']"
    by (simp add: calc_defs)
  moreover have inner: "evaluateExpression F ''sin(0)+1'' = Inl errInsufficientValues"
    by (simp add: calc_defs)
  moreover have
    "evaluateExpression F ''sqrt(sin(0)+1)'' = Inl (InvalidFunctionArgument ''sin(0)+1'')"
    by (simp add: calc_defs)
  moreover have "evaluateExpression exact ''sqrt(1+sin(0))'' = Inr (Fin 1)"
    by (simp add: calc_defs exact_defs)
  ultimately show ?thesis by simp
qed

text \<open>
  C2, as the claim states it, fails: the error of the argument is not propagated. The
  argument \<open>5/0\<close> fails with \<open>errDivideByZero\<close>, and \<open>sin(5/0)\<close> fails with the error
  "invalid function argument: 5/0".
\<close>

theorem argument_error_not_propagated:
  "evaluateExpression exact ''5/0'' = Inl errDivideByZero \<and>
   evaluateExpression exact ''sin(5/0)'' = Inl (InvalidFunctionArgument ''5/0'') \<and>
   evaluateExpression exact ''sin(5/0)'' \<noteq> Inl errDivideByZero"
  by (simp add: calc_defs exact_defs)

text \<open>
  C2, amended. When the argument of a function token fails to evaluate, with whatever
  error, \<open>evaluateFunction\<close> returns the error "invalid function argument" carrying the
  argument substring, and the postfix evaluator returns that error; the error of the
  argument itself is dropped.
\<close>

theorem argument_error_replaced:
  assumes "isFunction token" and "SplitN token = [funcName, rest]"
    and "evaluateExpression F (TrimSuffix rest) = Inl err"
  shows "evaluateFunction F token = Inl (InvalidFunctionArgument (TrimSuffix rest)) \<and>
         evaluatePostfixLoop F (token # tokens) stack =
           Inl (InvalidFunctionArgument (TrimSuffix rest))"
proof -
  have fn: "evaluateFunction F token = Inl (InvalidFunctionArgument (TrimSuffix rest))"
    using assms(2,3) by (simp add: Let_def)
  have "\<not> isNumber F token"
    using assms(1) by (rule isFunction_not_isNumber)
  with assms(1) fn show ?thesis by simp
qed

theorem argument_error_replaced_witness:
  "isFunction ''sin(5/0)'' \<and> SplitN ''sin(5/0)'' = [''sin'', ''5/0)''] \<and>
   evaluateExpression exact (TrimSuffix ''5/0)'') = Inl errDivideByZero \<and>
   evaluateFunction exact ''sin(5/0)'' = Inl (InvalidFunctionArgument ''5/0'') \<and>
   evaluatePostfixLoop exact [''sin(5/0)''] [] = Inl (InvalidFunctionArgument ''5/0'')"
proof -
  have f: "isFunction ''sin(5/0)''" by (simp add: token_defs)
  have s: "SplitN ''sin(5/0)'' = [''sin'', ''5/0)'']" by (simp add: SplitN_def)
  have e: "evaluateExpression exact (TrimSuffix ''5/0)'') = Inl errDivideByZero"
    by (simp add: calc_defs exact_defs)
  have t: "TrimSuffix ''5/0)'' = ''5/0''" by (simp add: TrimSuffix_def)
  from argument_error_replaced [OF f s e, of "[]" "[]"] f s e t show ?thesis by simp
qed

subsection \<open>Unbalanced parentheses\<close>

lemma popOperators_parenCount:
  "popOperators token postfix stack = (postfix1, stack1) \<Longrightarrow>
     parenCount stack1 = parenCount stack"
  by (induction token postfix stack rule: popOperators.induct)
    (auto simp: parenCount_def split: if_splits)

lemma popToLeftParen_parenCount:
  "popToLeftParen postfix stack = (postfix1, stack1) \<Longrightarrow>
     parenCount stack1 = parenCount stack \<and> (stack1 = [] \<or> hd stack1 = leftParen)"
  by (induction postfix stack rule: popToLeftParen.induct)
    (auto simp: parenCount_def split: if_splits)

lemma drainStack_parenCount:
  "drainStack postfix stack =
     (if parenCount stack = 0 then Inr (postfix @ stack) else Inl errMismatchedParens)"
  by (induction postfix stack rule: drainStack.induct) (auto simp: parenCount_def)

lemma paren_tokens:
  "\<not> isNumber F leftParen" "\<not> isFunction leftParen" "\<not> isOperator leftParen"
  "\<not> isNumber F rightParen" "\<not> isFunction rightParen" "\<not> isOperator rightParen"
  "rightParen \<noteq> leftParen"
  by (simp_all add: token_defs number_defs)

lemma isFunction_not_paren: "isFunction token \<Longrightarrow> token \<noteq> leftParen \<and> token \<noteq> rightParen"
  using paren_tokens by auto

lemma infixLoop_parens:
  assumes "list_all (validToken F) tokens"
  shows "map_sum id (\<lambda>(postfix1, stack1). parenCount stack1)
           (infixLoop F tokens postfix stack) =
         (case parenDepth (parenCount stack) tokens of
            None \<Rightarrow> Inl errMismatchedParens
          | Some depth \<Rightarrow> Inr depth)"
  using assms
proof (induction tokens arbitrary: postfix stack)
  case Nil
  show ?case by simp
next
  case (Cons token tokens)
  then have valid: "validToken F token" and rest: "list_all (validToken F) tokens"
    by simp_all
  note IH = Cons.IH [OF rest]
  show ?case
  proof (cases "isNumber F token")
    case True
    then have "token \<noteq> leftParen" "token \<noteq> rightParen" using paren_tokens by auto
    with True IH show ?thesis by simp
  next
    case notNum: False
    show ?thesis
    proof (cases "isFunction token")
      case True
      then have np: "token \<noteq> leftParen" "token \<noteq> rightParen"
        using isFunction_not_paren by auto
      then have "parenCount (token # stack) = parenCount stack"
        by (simp add: parenCount_def)
      with notNum True np IH show ?thesis by simp
    next
      case notFun: False
      show ?thesis
      proof (cases "isOperator token")
        case True
        then have np: "token \<noteq> leftParen" "token \<noteq> rightParen"
          by (auto simp: isOperator_def)
        obtain p1 s1 where pop: "popOperators token postfix stack = (p1, s1)"
          by (cases "popOperators token postfix stack")
        from popOperators_parenCount [OF pop] np
        have "parenCount (token # s1) = parenCount stack"
          by (simp add: parenCount_def)
        with notNum notFun True np pop IH show ?thesis by simp
      next
        case notOp: False
        show ?thesis
        proof (cases "token = leftParen")
          case True
          have "parenCount (token # stack) = Suc (parenCount stack)"
            using True by (simp add: parenCount_def)
          with notNum notFun notOp True IH show ?thesis by simp
        next
          case notLeft: False
          with valid notNum notFun notOp have right: "token = rightParen"
            by (simp add: validToken_def)
          obtain p1 s1 where pop: "popToLeftParen postfix stack = (p1, s1)"
            by (cases "popToLeftParen postfix stack")
          note pc = popToLeftParen_parenCount [OF pop]
          show ?thesis
          proof (cases s1)
            case Nil
            with pc have "parenCount stack = 0" by (simp add: parenCount_def)
            with notNum notFun notOp notLeft right pop Nil show ?thesis by simp
          next
            case (Cons l s2)
            with pc have l: "l = leftParen" by simp
            with pc Cons have cnt: "parenCount stack = Suc (parenCount s2)"
              by (simp add: parenCount_def)
            show ?thesis
            proof (cases "length s2 > 0 \<and> isFunction (hd s2)")
              case True
              then obtain f s3 where s2: "s2 = f # s3" and f: "isFunction f"
                by (cases s2) auto
              from f have "f \<noteq> leftParen" using isFunction_not_paren by auto
              then have "parenCount s3 = parenCount s2"
                using s2 by (simp add: parenCount_def)
              with notNum notFun notOp notLeft right pop Cons s2 f cnt IH
              show ?thesis by simp
            next
              case False
              with notNum notFun notOp notLeft right pop Cons cnt IH
              show ?thesis by auto
            qed
          qed
        qed
      qed
    qed
  qed
qed

lemma infixToPostfix_unbalanced:
  assumes "list_all (validToken F) tokens" and "\<not> balancedParens tokens"
  shows "infixToPostfix F tokens = Inl errMismatchedParens"
proof (cases "parenDepth 0 tokens")
  case None
  with infixLoop_parens [OF assms(1), of "[]" "[]"] show ?thesis
    by (cases "infixLoop F tokens [] []") (auto simp: infixToPostfix_def parenCount_def)
next
  case (Some depth)
  with assms(2) have "depth \<noteq> 0" by (simp add: balancedParens_def)
  with Some infixLoop_parens [OF assms(1), of "[]" "[]"] show ?thesis
    by (cases "infixLoop F tokens [] []")
      (auto simp: infixToPostfix_def parenCount_def drainStack_parenCount)
qed

text \<open>
  C5. A sequence of valid tokens whose parentheses are unbalanced, in either direction,
  is refused by \<open>infixToPostfix\<close> with \<open>errMismatchedParens\<close>, and so is an input string
  with such tokens. For \<open>(2+3\<close> the loop over the tokens ends with the left parenthesis
  on the operator stack and the final loop finds it; for \<open>2+3)\<close> the right parenthesis
  pops the operator and finds the stack empty. Both inputs return the error.
\<close>

theorem unbalanced_parentheses:
  assumes "list_all (validToken F) tokens" and "\<not> balancedParens tokens"
    and "tokenize (removeSpaces input) = Inr tokens"
  shows "infixToPostfix F tokens = Inl errMismatchedParens \<and>
         evaluateExpression F input = Inl errMismatchedParens \<and>
         infixLoop F [''('', ''2'', ''+'', ''3''] [] [] = Inr ([''2'', ''3''], [''+'', ''(''])  \<and>
         drainStack [''2'', ''3''] [''+'', ''(''] = Inl errMismatchedParens \<and>
         evaluateExpression F ''(2+3'' = Inl errMismatchedParens \<and>
         popToLeftParen [''2'', ''3''] [''+''] = ([''2'', ''3'', ''+''], []) \<and>
         infixLoop F [''2'', ''+'', ''3'', '')''] [] [] = Inl errMismatchedParens \<and>
         evaluateExpression F ''2+3)'' = Inl errMismatchedParens"
proof -
  have general: "infixToPostfix F tokens = Inl errMismatchedParens"
    using assms(1,2) by (rule infixToPostfix_unbalanced)
  then have "evaluateExpression F input = Inl errMismatchedParens"
    using assms(3) by simp
  moreover have
    "infixLoop F [''('', ''2'', ''+'', ''3''] [] [] = Inr ([''2'', ''3''], [''+'', ''(''])"
    "drainStack [''2'', ''3''] [''+'', ''(''] = Inl errMismatchedParens"
    "evaluateExpression F ''(2+3'' = Inl errMismatchedParens"
    "popToLeftParen [''2'', ''3''] [''+''] = ([''2'', ''3'', ''+''], [])"
    "infixLoop F [''2'', ''+'', ''3'', '')''] [] [] = Inl errMismatchedParens"
    "evaluateExpression F ''2+3)'' = Inl errMismatchedParens"
    by (simp_all add: calc_defs)
  ultimately show ?thesis using general by simp
qed

theorem unbalanced_parentheses_witness:
  "list_all (validToken exact) [''('', ''2'', ''+'', ''3''] \<and>
   \<not> balancedParens [''('', ''2'', ''+'', ''3''] \<and>
   tokenize (removeSpaces ''(2 + 3'') = Inr [''('', ''2'', ''+'', ''3''] \<and>
   infixToPostfix exact [''('', ''2'', ''+'', ''3''] = Inl errMismatchedParens \<and>
   evaluateExpression exact ''(2 + 3'' = Inl errMismatchedParens"
proof -
  have v: "list_all (validToken exact) [''('', ''2'', ''+'', ''3'']"
    by (simp add: validToken_def calc_defs)
  have u: "\<not> balancedParens [''('', ''2'', ''+'', ''3'']"
    by (simp add: balancedParens_def const_defs)
  have t: "tokenize (removeSpaces ''(2 + 3'') = Inr [''('', ''2'', ''+'', ''3'']"
    by (simp add: removeSpaces_def token_defs)
  from unbalanced_parentheses [OF v u t] v u t show ?thesis by simp
qed

subsection \<open>Termination of the evaluation\<close>

lemma popOperators_set:
  "popOperators token postfix stack = (postfix1, stack1) \<Longrightarrow>
     set postfix1 \<union> set stack1 = set postfix \<union> set stack"
  by (induction token postfix stack rule: popOperators.induct) (auto split: if_splits)

lemma popToLeftParen_set:
  "popToLeftParen postfix stack = (postfix1, stack1) \<Longrightarrow>
     set postfix1 \<union> set stack1 = set postfix \<union> set stack"
  by (induction postfix stack rule: popToLeftParen.induct) (auto split: if_splits)

lemma drainStack_set:
  "drainStack postfix stack = Inr postfix1 \<Longrightarrow> set postfix1 = set postfix \<union> set stack"
  by (induction postfix stack rule: drainStack.induct) (auto split: if_splits)

lemma infixLoop_set:
  "infixLoop F tokens postfix stack = Inr (postfix1, stack1) \<Longrightarrow>
     set postfix1 \<union> set stack1 \<subseteq> set tokens \<union> set postfix \<union> set stack"
proof (induction F tokens postfix stack rule: infixLoop.induct)
  case (1 F postfix stack)
  then show ?case by simp
next
  case (2 F token tokens postfix stack)
  show ?case
  proof (cases "isNumber F token")
    case True
    with 2 show ?thesis by auto
  next
    case notNum: False
    show ?thesis
    proof (cases "isFunction token")
      case True
      with 2 notNum show ?thesis by auto
    next
      case notFun: False
      show ?thesis
      proof (cases "isOperator token")
        case True
        obtain p1 s1 where pop: "popOperators token postfix stack = (p1, s1)"
          by (cases "popOperators token postfix stack")
        with "2.prems" notNum notFun True
        have "infixLoop F tokens p1 (token # s1) = Inr (postfix1, stack1)" by simp
        from "2.IH"(3) [OF notNum notFun True pop [symmetric] this] popOperators_set [OF pop]
        show ?thesis by auto
      next
        case notOp: False
        show ?thesis
        proof (cases "token = leftParen")
          case True
          with 2 notNum notFun notOp show ?thesis by auto
        next
          case notLeft: False
          with "2.prems" notNum notFun notOp have right: "token = rightParen"
            by (auto split: if_splits)
          obtain p1 s1 where pop: "popToLeftParen postfix stack = (p1, s1)"
            by (cases "popToLeftParen postfix stack")
          with "2.prems" notNum notFun notOp notLeft right have ne: "length s1 \<noteq> 0"
            by (auto split: if_splits)
          then obtain l s2 where s1: "s1 = l # s2" by (cases s1) auto
          note st = popToLeftParen_set [OF pop]
          show ?thesis
          proof (cases "length s2 > 0 \<and> isFunction (hd s2)")
            case True
            then obtain f s3 where s2: "s2 = f # s3" by (cases s2) auto
            from "2.prems" notNum notFun notOp notLeft right pop s1 s2 True
            have "infixLoop F tokens (p1 @ [f]) s3 = Inr (postfix1, stack1)" by simp
            from "2.IH"(5) [OF notNum notFun notOp notLeft right pop [symmetric] ne _ True]
              this s1 s2 st
            show ?thesis by auto
          next
            case False
            from "2.prems" notNum notFun notOp notLeft right pop s1 False
            have "infixLoop F tokens p1 s2 = Inr (postfix1, stack1)" by auto
            from "2.IH"(6) [OF notNum notFun notOp notLeft right pop [symmetric] ne _ False]
              this s1 st
            show ?thesis by auto
          qed
        qed
      qed
    qed
  qed
qed

lemma infixToPostfix_set:
  assumes "infixToPostfix F tokens = Inr postfix"
  shows "set postfix \<subseteq> set tokens"
proof -
  from assms obtain p s where loop: "infixLoop F tokens [] [] = Inr (p, s)"
    and drain: "drainStack p s = Inr postfix"
    by (auto simp: infixToPostfix_def split: sum.splits prod.splits)
  from infixLoop_set [OF loop] drainStack_set [OF drain] show ?thesis by auto
qed

lemma token_in_concat:
  assumes "token \<in> set tokens"
  shows "\<exists>pre post. concat tokens = pre @ token @ post"
proof -
  from assms obtain ts1 ts2 where "tokens = ts1 @ token # ts2"
    by (auto dest: split_list)
  then have "concat tokens = concat ts1 @ token @ concat ts2" by simp
  then show ?thesis by blast
qed

lemma SplitN_parts:
  assumes "SplitN token = [funcName, rest]"
  shows "token = funcName @ ''('' @ rest"
proof -
  let ?d = "dropWhile (\<lambda>c. c \<noteq> CHR ''('') token"
  from assms have paren: "CHR ''('' \<in> set token"
    and name: "funcName = takeWhile (\<lambda>c. c \<noteq> CHR ''('') token"
    and rest: "rest = tl ?d"
    by (auto simp: SplitN_def split: if_splits)
  from paren have "?d \<noteq> []" by simp
  moreover from this have "hd ?d = CHR ''(''"
    using hd_dropWhile [of "\<lambda>c. c \<noteq> CHR ''(''" token] by simp
  ultimately have "?d = CHR ''('' # rest"
    using rest by (cases ?d) auto
  then show ?thesis
    using name takeWhile_dropWhile_id [of "\<lambda>c. c \<noteq> CHR ''(''" token] by simp
qed

lemma TrimSuffix_prefix: "\<exists>post. s = TrimSuffix s @ post"
proof (cases "s \<noteq> [] \<and> last s = CHR '')''")
  case True
  then have "s = TrimSuffix s @ [last s]"
    using append_butlast_last_id [of s] by (simp add: TrimSuffix_def)
  then show ?thesis ..
next
  case False
  then have "s = TrimSuffix s @ []" by (auto simp: TrimSuffix_def)
  then show ?thesis ..
qed

lemma argument_substring:
  assumes "tokenize (removeSpaces input) = Inr tokens"
    and "infixToPostfix F tokens = Inr postfix"
    and "token \<in> set postfix"
    and "SplitN token = [funcName, rest]"
  shows "length (TrimSuffix rest) < length input"
    and "\<exists>pre post. removeSpaces input = pre @ TrimSuffix rest @ post"
proof -
  from assms(2,3) have "token \<in> set tokens"
    using infixToPostfix_set by blast
  then obtain pre post where "concat tokens = pre @ token @ post"
    using token_in_concat by blast
  with tokenize_concat [OF assms(1)]
  have input: "removeSpaces input = pre @ token @ post" by simp
  obtain post1 where "rest = TrimSuffix rest @ post1"
    using TrimSuffix_prefix by blast
  with SplitN_parts [OF assms(4)]
  have token: "token = (funcName @ ''('') @ TrimSuffix rest @ post1" by simp
  from input token
  have "removeSpaces input = (pre @ funcName @ ''('') @ TrimSuffix rest @ (post1 @ post)"
    by simp
  then show "\<exists>pre post. removeSpaces input = pre @ TrimSuffix rest @ post" by blast
  have "length (TrimSuffix rest) < length token"
    using assms(4) by (rule SplitN_TrimSuffix_size)
  also have "\<dots> \<le> length (removeSpaces input)"
    using input by simp
  also have "\<dots> \<le> length input"
    by (simp add: removeSpaces_def)
  finally show "length (TrimSuffix rest) < length input" .
qed

lemma tokenizeLoop_errors:
  "tokenizeLoop s number tokens = Inl err \<Longrightarrow>
     err = UnmatchedFunctionParens \<or> (\<exists>c. err = InvalidCharacter c)"
proof (induction s number tokens rule: tokenizeLoop.induct)
  case (1 number tokens)
  then show ?case by simp
next
  case (2 char rest number tokens)
  show ?case
  proof (cases "IsDigit char \<or> char = CHR ''.''")
    case True
    with 2 show ?thesis by simp
  next
    case notDigit: False
    show ?thesis
    proof (cases "isOperatorOrParen [char]")
      case True
      with notDigit "2.prems"
      have "tokenizeLoop rest [] (flushNumber number tokens @ [[char]]) = Inl err" by simp
      from "2.IH"(2) [OF notDigit True this] show ?thesis .
    next
      case notOp: False
      obtain count after where scan:
        "scanParens 1 (drop (length (functionRegex (char # rest))) (char # rest)) = (count, after)"
        by (cases "scanParens 1 (drop (length (functionRegex (char # rest))) (char # rest))")
      show ?thesis
      proof (cases "functionRegex (char # rest) \<noteq> [] \<and> count = 0")
        case True
        then have m: "functionRegex (char # rest) \<noteq> []" and c0: "count = 0" by simp_all
        from "2.prems" notDigit notOp scan m c0
        have "tokenizeLoop after [] (flushNumber number tokens @
            [take (length (char # rest) - length after) (char # rest)]) = Inl err"
          by (simp add: Let_def)
        from "2.IH"(3) [OF notDigit notOp refl m scan [symmetric] c0 this] show ?thesis .
      next
        case False
        with "2.prems" notDigit notOp scan show ?thesis
          by (auto simp: Let_def split: if_splits)
      qed
    qed
  qed
qed

lemma drainStack_errors: "drainStack postfix stack = Inl err \<Longrightarrow> err = errMismatchedParens"
  by (induction postfix stack rule: drainStack.induct) (auto split: if_splits)

lemma infixLoop_errors:
  "infixLoop F tokens postfix stack = Inl err \<Longrightarrow>
     err = errMismatchedParens \<or> (\<exists>t. err = InvalidToken t)"
proof (induction F tokens postfix stack rule: infixLoop.induct)
  case (1 F postfix stack)
  then show ?case by simp
next
  case (2 F token tokens postfix stack)
  show ?case
  proof (cases "isNumber F token")
    case True
    with 2 show ?thesis by simp
  next
    case notNum: False
    show ?thesis
    proof (cases "isFunction token")
      case True
      with 2 notNum show ?thesis by simp
    next
      case notFun: False
      show ?thesis
      proof (cases "isOperator token")
        case True
        obtain p1 s1 where pop: "popOperators token postfix stack = (p1, s1)"
          by (cases "popOperators token postfix stack")
        with "2.prems" notNum notFun True
        have "infixLoop F tokens p1 (token # s1) = Inl err" by simp
        from "2.IH"(3) [OF notNum notFun True pop [symmetric] this] show ?thesis .
      next
        case notOp: False
        show ?thesis
        proof (cases "token = leftParen")
          case True
          with 2 notNum notFun notOp show ?thesis by simp
        next
          case notLeft: False
          show ?thesis
          proof (cases "token = rightParen")
            case right: True
            obtain p1 s1 where pop: "popToLeftParen postfix stack = (p1, s1)"
              by (cases "popToLeftParen postfix stack")
            show ?thesis
            proof (cases "length s1 = 0")
              case True
              with "2.prems" notNum notFun notOp notLeft right pop show ?thesis by simp
            next
              case ne: False
              then obtain l s2 where s1: "s1 = l # s2" by (cases s1) auto
              show ?thesis
              proof (cases "length s2 > 0 \<and> isFunction (hd s2)")
                case True
                then obtain f s3 where s2: "s2 = f # s3" by (cases s2) auto
                from "2.prems" notNum notFun notOp notLeft right pop s1 s2 True
                have "infixLoop F tokens (p1 @ [f]) s3 = Inl err" by simp
                from "2.IH"(5) [OF notNum notFun notOp notLeft right pop [symmetric] ne _ True]
                  this s1 s2
                show ?thesis by simp
              next
                case False
                from "2.prems" notNum notFun notOp notLeft right pop s1 False
                have "infixLoop F tokens p1 s2 = Inl err" by auto
                from "2.IH"(6) [OF notNum notFun notOp notLeft right pop [symmetric] ne _ False]
                  this s1
                show ?thesis by simp
              qed
            qed
          next
            case False
            with "2.prems" notNum notFun notOp notLeft show ?thesis by auto
          qed
        qed
      qed
    qed
  qed
qed

lemma infixToPostfix_errors:
  assumes "infixToPostfix F tokens = Inl err"
  shows "err = errMismatchedParens \<or> (\<exists>t. err = InvalidToken t)"
proof (cases "infixLoop F tokens [] []")
  case (Inl e)
  with assms have "infixLoop F tokens [] [] = Inl err" by (simp add: infixToPostfix_def)
  then show ?thesis by (rule infixLoop_errors)
next
  case (Inr ps)
  obtain p s where "ps = (p, s)" by (cases ps)
  with Inr assms have "drainStack p s = Inl err" by (simp add: infixToPostfix_def)
  then show ?thesis using drainStack_errors by blast
qed

lemma SplitN_prefix:
  assumes "HasPrefix token (name @ ''('')" and "CHR ''('' \<notin> set name"
  shows "SplitN token = [name, drop (length name + 1) token]"
proof -
  define r where "r = drop (length (name @ ''('')) token"
  have "token = (name @ ''('') @ r"
    using assms(1) unfolding HasPrefix_def r_def by (metis append_take_drop_id)
  then have token: "token = name @ CHR ''('' # r" by simp
  have all: "\<And>c. c \<in> set name \<Longrightarrow> c \<noteq> CHR ''(''"
    using assms(2) by auto
  have "takeWhile (\<lambda>c. c \<noteq> CHR ''('') token = name"
    unfolding token using all by (simp add: takeWhile_append2)
  moreover have "dropWhile (\<lambda>c. c \<noteq> CHR ''('') token = CHR ''('' # r"
    unfolding token using all by (simp add: dropWhile_append2)
  moreover have "CHR ''('' \<in> set token" unfolding token by simp
  moreover have "drop (length name + 1) token = r" unfolding token by simp
  ultimately show ?thesis by (simp add: SplitN_def)
qed

lemma isFunction_SplitN:
  assumes "isFunction token"
  shows "\<exists>funcName rest. SplitN token = [funcName, rest] \<and>
           funcName \<in> set [''sin'', ''cos'', ''tan'', ''sqrt'']"
proof -
  from assms consider "HasPrefix token (''sin'' @ ''('')" | "HasPrefix token (''cos'' @ ''('')"
    | "HasPrefix token (''tan'' @ ''('')" | "HasPrefix token (''sqrt'' @ ''('')"
    by (auto simp: isFunction_def)
  then show ?thesis
  proof cases
    case 1
    from SplitN_prefix [OF this] show ?thesis by simp
  next
    case 2
    from SplitN_prefix [OF this] show ?thesis by simp
  next
    case 3
    from SplitN_prefix [OF this] show ?thesis by simp
  next
    case 4
    from SplitN_prefix [OF this] show ?thesis by simp
  qed
qed

lemma evaluateFunction_errors:
  assumes "isFunction token" and "evaluateFunction F token = Inl err"
  shows "\<exists>s. err = InvalidFunctionArgument s"
proof -
  from isFunction_SplitN [OF assms(1)] obtain funcName rest
    where split: "SplitN token = [funcName, rest]"
      and name: "funcName \<in> set [''sin'', ''cos'', ''tan'', ''sqrt'']"
    by blast
  show ?thesis
  proof (cases "evaluateExpression F (TrimSuffix rest)")
    case (Inl e)
    with split assms(2) show ?thesis by (auto simp: Let_def)
  next
    case (Inr arg)
    with split name assms(2) show ?thesis by (auto simp: Let_def)
  qed
qed

lemma evaluatePostfixLoop_errors:
  "evaluatePostfixLoop F tokens stack = Inl err \<Longrightarrow>
     err = errInsufficientValues \<or> err = errDivideByZero \<or>
     err = ErrorEvaluatingExpression \<or> (\<exists>s. err = InvalidFunctionArgument s) \<or>
     (\<exists>t. err = InvalidToken t)"
proof (induction tokens arbitrary: stack)
  case Nil
  then show ?case by (auto split: if_splits)
next
  case (Cons token tokens)
  show ?case
  proof (cases "isNumber F token")
    case True
    then obtain val where "ParseFloat F token = Some val" by (auto simp: isNumber_def)
    with True Cons.prems have "evaluatePostfixLoop F tokens (val # stack) = Inl err" by simp
    then show ?thesis by (rule Cons.IH)
  next
    case notNum: False
    show ?thesis
    proof (cases "isFunction token")
      case True
      show ?thesis
      proof (cases "evaluateFunction F token")
        case (Inl e)
        with notNum True Cons.prems have "evaluateFunction F token = Inl err" by simp
        from evaluateFunction_errors [OF True this] show ?thesis by blast
      next
        case (Inr result)
        with notNum True Cons.prems
        have "evaluatePostfixLoop F tokens (result # stack) = Inl err" by simp
        then show ?thesis by (rule Cons.IH)
      qed
    next
      case notFun: False
      show ?thesis
      proof (cases "isOperator token \<and> \<not> length stack < 2")
        case True
        then have "isOperator token" and "\<not> length stack < 2" by simp_all
        from Cons.prems notNum notFun this
        consider "err = errDivideByZero"
          | st where "evaluatePostfixLoop F tokens st = Inl err"
          by (auto simp: isOperator_def isOperatorOrParen_def Let_def divide_calc_def
              split: if_splits sum.splits)
        then show ?thesis
        proof cases
          case 1
          then show ?thesis by simp
        next
          case 2
          then show ?thesis by (rule Cons.IH)
        qed
      next
        case False
        with Cons.prems notNum notFun show ?thesis by (auto split: if_splits)
      qed
    qed
  qed
qed

lemma evaluateExpression_errors:
  assumes "evaluateExpression F input = Inl err"
  shows "err = UnmatchedFunctionParens \<or> (\<exists>c. err = InvalidCharacter c) \<or>
         (\<exists>t. err = InvalidToken t) \<or> err = errMismatchedParens \<or>
         err = errInsufficientValues \<or> err = errDivideByZero \<or>
         err = ErrorEvaluatingExpression \<or> (\<exists>s. err = InvalidFunctionArgument s)"
proof (cases "tokenize (removeSpaces input)")
  case (Inl e)
  with assms have "tokenizeLoop (removeSpaces input) [] [] = Inl err"
    by (simp add: tokenize_def)
  from tokenizeLoop_errors [OF this] show ?thesis by blast
next
  case tokens: (Inr tokens)
  show ?thesis
  proof (cases "infixToPostfix F tokens")
    case (Inl e)
    with tokens assms have "infixToPostfix F tokens = Inl err" by simp
    from infixToPostfix_errors [OF this] show ?thesis by blast
  next
    case (Inr postfix)
    with tokens assms have "evaluatePostfixLoop F postfix [] = Inl err" by simp
    from evaluatePostfixLoop_errors [OF this] show ?thesis by blast
  qed
qed

text \<open>
  C9, as the claim states it, fails in one point: the number returned need not be finite.
  The input \<open>sqrt(0-1)\<close> is one function token, a valid token sequence with balanced
  parentheses; its argument evaluates to \<open>-1\<close>, of which \<^verbatim>\<open>math.Sqrt\<close> is
  not-a-number, and \<open>evaluateExpression\<close> returns that value with no error.
\<close>

theorem result_not_finite:
  "tokenize (removeSpaces ''sqrt(0-1)'') = Inr [''sqrt(0-1)''] \<and>
   list_all (validToken exact) [''sqrt(0-1)''] \<and> balancedParens [''sqrt(0-1)''] \<and>
   evaluateExpression exact ''0-1'' = Inr (Fin (- 1)) \<and>
   evaluateExpression exact ''sqrt(0-1)'' = Inr NaN"
  by (simp add: calc_defs exact_defs validToken_def balancedParens_def)

text \<open>
  C9, amended. For every input string, well-formed or not, the evaluation terminates:
  the argument \<open>(F, input)\<close> of \<open>evaluateExpression\<close> is in the accessible part of the
  call relation of the four mutually recursive functions. The call returns a number
  (finite or not) or one of eight kinds of error; the errors of the four remaining
  branches (invalid operator, invalid number, invalid function format, unsupported
  function) are never returned. The recursion through function arguments is on strictly
  shorter strings: the argument substring of every token of the postfix sequence that
  has one is a part of the input without its spaces, and strictly shorter than the input.
\<close>

theorem evaluateExpression_terminates:
  "evaluateExpression_evaluatePostfix_evaluatePostfixLoop_evaluateFunction_dom
     (Inl (Inl (F, input))) \<and>
   ((\<exists>result. evaluateExpression F input = Inr result) \<or>
    evaluateExpression F input = Inl UnmatchedFunctionParens \<or>
    (\<exists>c. evaluateExpression F input = Inl (InvalidCharacter c)) \<or>
    (\<exists>t. evaluateExpression F input = Inl (InvalidToken t)) \<or>
    evaluateExpression F input = Inl errMismatchedParens \<or>
    evaluateExpression F input = Inl errInsufficientValues \<or>
    evaluateExpression F input = Inl errDivideByZero \<or>
    evaluateExpression F input = Inl ErrorEvaluatingExpression \<or>
    (\<exists>s. evaluateExpression F input = Inl (InvalidFunctionArgument s))) \<and>
   (\<forall>tokens postfix token funcName rest.
      tokenize (removeSpaces input) = Inr tokens \<and> infixToPostfix F tokens = Inr postfix \<and>
      token \<in> set postfix \<and> SplitN token = [funcName, rest] \<longrightarrow>
      length (TrimSuffix rest) < length input \<and>
      (\<exists>pre post. removeSpaces input = pre @ TrimSuffix rest @ post))"
proof -
  have "evaluateExpression_evaluatePostfix_evaluatePostfixLoop_evaluateFunction_dom
       (Inl (Inl (F, input)))"
    using evaluate_terminates by blast
  moreover have "(\<exists>result. evaluateExpression F input = Inr result) \<or>
    evaluateExpression F input = Inl UnmatchedFunctionParens \<or>
    (\<exists>c. evaluateExpression F input = Inl (InvalidCharacter c)) \<or>
    (\<exists>t. evaluateExpression F input = Inl (InvalidToken t)) \<or>
    evaluateExpression F input = Inl errMismatchedParens \<or>
    evaluateExpression F input = Inl errInsufficientValues \<or>
    evaluateExpression F input = Inl errDivideByZero \<or>
    evaluateExpression F input = Inl ErrorEvaluatingExpression \<or>
    (\<exists>s. evaluateExpression F input = Inl (InvalidFunctionArgument s))"
  proof (cases "evaluateExpression F input")
    case (Inl err)
    from evaluateExpression_errors [OF this] show ?thesis
      unfolding Inl by blast
  next
    case (Inr result)
    then show ?thesis by blast
  qed
  moreover have "\<forall>tokens postfix token funcName rest.
      tokenize (removeSpaces input) = Inr tokens \<and> infixToPostfix F tokens = Inr postfix \<and>
      token \<in> set postfix \<and> SplitN token = [funcName, rest] \<longrightarrow>
      length (TrimSuffix rest) < length input \<and>
      (\<exists>pre post. removeSpaces input = pre @ TrimSuffix rest @ post)"
    using argument_substring by blast
  ultimately show ?thesis by blast
qed

theorem evaluateExpression_terminates_witness:
  "tokenize (removeSpaces ''2 * sqrt(1 + sin(0))'') = Inr [''2'', ''*'', ''sqrt(1+sin(0))''] \<and>
   infixToPostfix exact [''2'', ''*'', ''sqrt(1+sin(0))''] =
     Inr [''2'', ''sqrt(1+sin(0))'', ''*''] \<and>
   ''sqrt(1+sin(0))'' \<in> set [''2'', ''sqrt(1+sin(0))'', ''*''] \<and>
   SplitN ''sqrt(1+sin(0))'' = [''sqrt'', ''1+sin(0))''] \<and>
   evaluateExpression_evaluatePostfix_evaluatePostfixLoop_evaluateFunction_dom
     (Inl (Inl (exact, ''2 * sqrt(1 + sin(0))''))) \<and>
   evaluateExpression_evaluatePostfix_evaluatePostfixLoop_evaluateFunction_dom
     (Inl (Inl (exact, ''1+2''))) \<and>
   evaluateExpression_evaluatePostfix_evaluatePostfixLoop_evaluateFunction_dom
     (Inl (Inl (exact, ''(2+3''))) \<and>
   length (TrimSuffix ''1+sin(0))'') < length ''2 * sqrt(1 + sin(0))''"
proof -
  have t: "tokenize (removeSpaces ''2 * sqrt(1 + sin(0))'') =
      Inr [''2'', ''*'', ''sqrt(1+sin(0))'']"
    by (simp add: removeSpaces_def token_defs)
  have p: "infixToPostfix exact [''2'', ''*'', ''sqrt(1+sin(0))''] =
      Inr [''2'', ''sqrt(1+sin(0))'', ''*'']"
    by (simp add: calc_defs)
  have m: "''sqrt(1+sin(0))'' \<in> set [''2'', ''sqrt(1+sin(0))'', ''*'']" by simp
  have s: "SplitN ''sqrt(1+sin(0))'' = [''sqrt'', ''1+sin(0))'']" by (simp add: SplitN_def)
  from evaluateExpression_terminates [of exact "''2 * sqrt(1 + sin(0))''"] t p m s
  have "length (TrimSuffix ''1+sin(0))'') < length ''2 * sqrt(1 + sin(0))''"
    by blast
  with evaluateExpression_terminates [of exact "''2 * sqrt(1 + sin(0))''"]
    evaluateExpression_terminates [of exact "''1+2''"]
    evaluateExpression_terminates [of exact "''(2+3''"] t p m s
  show ?thesis by blast
qed

subsection \<open>The pipeline and a reference evaluation\<close>

lemma evaluatePostfixLoop_postfixStack:
  "evaluatePostfixLoop F tokens stack =
     (case postfixStack F tokens stack of
        Inl err \<Rightarrow> Inl err
      | Inr stack1 \<Rightarrow>
          if length stack1 \<noteq> 1 then Inl ErrorEvaluatingExpression else Inr (hd stack1))"
proof (induction tokens arbitrary: stack)
  case Nil
  show ?case by simp
next
  case (Cons token tokens)
  show ?case
  proof (cases "isNumber F token")
    case True
    then obtain val where "ParseFloat F token = Some val"
      by (auto simp: isNumber_def)
    with True Cons.IH show ?thesis by simp
  next
    case notNum: False
    show ?thesis
    proof (cases "isFunction token")
      case True
      with notNum Cons.IH show ?thesis
        by (cases "evaluateFunction F token") simp_all
    next
      case notFun: False
      show ?thesis
      proof (cases "isOperator token \<and> \<not> length stack < 2")
        case True
        show ?thesis
        proof (cases "token = divideOperator")
          case True
          with notNum notFun \<open>isOperator token \<and> \<not> length stack < 2\<close> Cons.IH show ?thesis
            by (cases "divide_calc F (hd (tl stack)) (hd stack)") (simp_all add: Let_def const_defs)
        next
          case False
          with notNum notFun True Cons.IH show ?thesis
            by (simp add: Let_def)
        qed
      next
        case False
        with notNum notFun show ?thesis by auto
      qed
    qed
  qed
qed

lemma postfixStack_append:
  "postfixStack F (tokens1 @ tokens2) stack =
     (case postfixStack F tokens1 stack of
        Inl err \<Rightarrow> Inl err
      | Inr stack1 \<Rightarrow> postfixStack F tokens2 stack1)"
proof (induction tokens1 arbitrary: stack)
  case Nil
  show ?case by simp
next
  case (Cons token tokens)
  show ?case
  proof (cases "isNumber F token")
    case True
    then obtain val where "ParseFloat F token = Some val"
      by (auto simp: isNumber_def)
    with True Cons.IH show ?thesis by simp
  next
    case notNum: False
    show ?thesis
    proof (cases "isFunction token")
      case True
      with notNum Cons.IH show ?thesis
        by (cases "evaluateFunction F token") simp_all
    next
      case notFun: False
      show ?thesis
      proof (cases "isOperator token \<and> \<not> length stack < 2")
        case True
        show ?thesis
        proof (cases "token = divideOperator")
          case True
          with notNum notFun \<open>isOperator token \<and> \<not> length stack < 2\<close> Cons.IH show ?thesis
            by (cases "divide_calc F (hd (tl stack)) (hd stack)") (simp_all add: Let_def const_defs)
        next
          case False
          with notNum notFun True Cons.IH show ?thesis
            by (simp add: Let_def)
        qed
      next
        case False
        with notNum notFun show ?thesis by auto
      qed
    qed
  qed
qed

lemma arith_tokens:
  assumes "additive oper \<or> multiplicative oper"
  shows "\<not> isNumber F oper" "\<not> isFunction oper" "isOperator oper" "oper \<noteq> leftParen"
    "associativity oper = ''L''"
  using assms
  by (auto simp: additive_def multiplicative_def token_defs number_defs)

lemma arith_precedence:
  "additive oper \<Longrightarrow> precedence oper = 1"
  "multiplicative oper \<Longrightarrow> precedence oper = 2"
  by (auto simp: additive_def multiplicative_def precedence_def const_defs)

lemma additive_not_multiplicative: "additive oper \<Longrightarrow> \<not> multiplicative oper"
  by (auto simp: additive_def multiplicative_def const_defs)

lemma refCont_multiplicative:
  assumes "multiplicative m"
  shows "refCont F accop t ((m, w) # rest) =
           (case multiplied F m t w of
              Inl err \<Rightarrow> Inl err
            | Inr t1 \<Rightarrow> refCont F accop t1 rest)"
  using assms
  by (auto simp: refCont_def multiplied_def multiplicative_def const_defs split: sum.splits)

lemma refCont_additive:
  assumes "additive a"
  shows "refCont F accop t ((a, w) # rest) = refCont F (Some (combine F accop t, a)) w rest"
  using assms
  by (auto simp: refCont_def combine_def additive_def const_defs split: sum.splits)

lemma popOperators_additive:
  assumes "additive oper" and "list_all (\<lambda>t. additive t \<or> multiplicative t) stack"
  shows "popOperators oper postfix stack = (postfix @ stack, [])"
  using assms(2)
proof (induction stack arbitrary: postfix)
  case Nil
  show ?case by simp
next
  case (Cons t stack)
  then have t: "additive t \<or> multiplicative t" by simp
  then have "precedence t \<ge> precedence oper"
    using arith_precedence assms(1) by auto
  with arith_tokens(4) [OF t] arith_tokens(5) [of oper] assms(1) Cons show ?case by simp
qed

lemma popOperators_multiplicative:
  assumes "multiplicative oper" and "wfState pending accop"
  shows "popOperators oper postfix (opStack pending accop) =
           (postfix @ (case pending of None \<Rightarrow> [] | Some (m, w) \<Rightarrow> [m]),
            (case accop of None \<Rightarrow> [] | Some (acc, a) \<Rightarrow> [a]))"
proof -
  have L: "associativity oper = ''L''" and p2: "precedence oper = 2"
    using assms(1) arith_tokens(5) arith_precedence(2) by auto
  have stop: "popOperators oper q (case accop of None \<Rightarrow> [] | Some (acc, a) \<Rightarrow> [a]) =
      (q, (case accop of None \<Rightarrow> [] | Some (acc, a) \<Rightarrow> [a]))" for q
    using assms(2) p2 arith_precedence(1)
    by (auto simp: wfState_def split: option.splits)
  show ?thesis
  proof (cases pending)
    case None
    with stop show ?thesis by (simp add: opStack_def)
  next
    case (Some mw)
    obtain m w where mw: "mw = (m, w)" by (cases mw)
    with Some assms(2) have m: "multiplicative m" by (simp add: wfState_def)
    then have "m \<noteq> leftParen" "precedence m = 2"
      using arith_tokens(4) arith_precedence(2) by auto
    with Some mw L p2 stop show ?thesis by (simp add: opStack_def)
  qed
qed

lemma pipelineFrom_step:
  assumes "additive oper \<or> multiplicative oper" and "isNumber F y"
  shows "pipelineFrom F (oper # y # tokens) postfix stack =
           pipelineFrom F tokens (fst (popOperators oper postfix stack) @ [y])
             (oper # snd (popOperators oper postfix stack))"
  using arith_tokens(1) [OF assms(1), of F] arith_tokens(2-5) [OF assms(1)] assms(2)
  by (simp add: pipelineFrom_def split: prod.splits)

lemma postfixStack_number:
  "ParseFloat F y = Some w \<Longrightarrow> postfixStack F (y # tokens) stack = postfixStack F tokens (w # stack)"
  by (simp add: isNumber_def)

lemma postfixStack_multiplicative:
  assumes "multiplicative m"
  shows "postfixStack F (m # tokens) (w # t # stack) =
           (case multiplied F m t w of
              Inl err \<Rightarrow> Inl err
            | Inr t1 \<Rightarrow> postfixStack F tokens (t1 # stack))"
  using arith_tokens(1) [of m F] arith_tokens(2,3) [of m] assms
  by (auto simp: multiplied_def multiplicative_def Let_def const_defs split: sum.splits)

lemma postfixStack_additive:
  assumes "additive a"
  shows "postfixStack F (a # tokens) (t # acc # stack) =
           postfixStack F tokens (combine F (Some (acc, a)) t # stack)"
  using arith_tokens(1) [of a F] arith_tokens(2,3) [of a] assms
  by (auto simp: combine_def additive_def Let_def const_defs)

declare postfixStack.simps(2) [simp del]

lemma flush_pending_stack:
  assumes "wfState pending accop"
  shows "postfixStack F ((case pending of None \<Rightarrow> [] | Some (m, w) \<Rightarrow> [m]) @ tokens)
           (valStack pending t accop) =
         (case flushPending F pending t of
            Inl err \<Rightarrow> Inl err
          | Inr t1 \<Rightarrow>
              postfixStack F tokens (t1 # (case accop of None \<Rightarrow> [] | Some (acc, a) \<Rightarrow> [acc])))"
proof (cases pending)
  case None
  then show ?thesis by (simp add: valStack_def flushPending_def)
next
  case (Some mw)
  obtain m w where mw: "mw = (m, w)" by (cases mw)
  with Some assms have "multiplicative m" by (simp add: wfState_def)
  from postfixStack_multiplicative [OF this] Some mw show ?thesis
    by (simp add: valStack_def flushPending_def)
qed

lemma flush_accop_stack:
  assumes "wfState pending accop"
  shows "postfixStack F ((case accop of None \<Rightarrow> [] | Some (acc, a) \<Rightarrow> [a]) @ tokens)
           (t1 # (case accop of None \<Rightarrow> [] | Some (acc, a) \<Rightarrow> [acc])) =
         postfixStack F tokens [combine F accop t1]"
proof (cases accop)
  case None
  then show ?thesis by (simp add: combine_def)
next
  case (Some aa)
  obtain acc a where aa: "aa = (acc, a)" by (cases aa)
  with Some assms have "additive a" by (simp add: wfState_def)
  from postfixStack_additive [OF this] Some aa show ?thesis by simp
qed

lemma refCont_pending:
  assumes "wfState pending accop"
  shows "refCont F accop t ((case pending of None \<Rightarrow> [] | Some mw \<Rightarrow> [mw]) @ rest) =
         (case flushPending F pending t of
            Inl err \<Rightarrow> Inl err
          | Inr t1 \<Rightarrow> refCont F accop t1 rest)"
proof (cases pending)
  case None
  then show ?thesis by (simp add: flushPending_def)
next
  case (Some mw)
  obtain m w where mw: "mw = (m, w)" by (cases mw)
  with Some assms have "multiplicative m" by (simp add: wfState_def)
  from refCont_multiplicative [OF this] Some mw show ?thesis
    by (simp add: flushPending_def)
qed

lemma refCont_Nil: "refCont F accop t [] = Inr (combine F accop t)"
  by (simp add: refCont_def)

lemma opStack_arith:
  assumes "wfState pending accop"
  shows "list_all (\<lambda>t. additive t \<or> multiplicative t) (opStack pending accop)"
  using assms by (auto simp: wfState_def opStack_def split: option.splits)

lemma arith_parenCount:
  "list_all (\<lambda>t. additive t \<or> multiplicative t) stack \<Longrightarrow> parenCount stack = 0"
  using arith_tokens(4)
  by (induction stack) (auto simp: parenCount_def)

lemma popOperators_prefix:
  "\<exists>n. popOperators token postfix stack = (postfix @ take n stack, drop n stack)"
proof (induction stack arbitrary: postfix)
  case Nil
  show ?case by simp
next
  case (Cons t stack)
  show ?case
  proof (cases "t \<noteq> leftParen \<and>
         ((associativity token = ''L'' \<and> precedence t \<ge> precedence token) \<or>
          (associativity token = ''R'' \<and> precedence t > precedence token))")
    case True
    from Cons [of "postfix @ [t]"] obtain n where
      "popOperators token (postfix @ [t]) stack = ((postfix @ [t]) @ take n stack, drop n stack)"
      by blast
    with True have "popOperators token postfix (t # stack) =
        (postfix @ take (Suc n) (t # stack), drop (Suc n) (t # stack))"
      by simp
    then show ?thesis by blast
  next
    case False
    then have "popOperators token postfix (t # stack) =
        (postfix @ take 0 (t # stack), drop 0 (t # stack))"
      by auto
    then show ?thesis by blast
  qed
qed

lemma restTokens_Cons: "restTokens ((oper, y) # rest) = oper # y # restTokens rest"
  by (simp add: restTokens_def)

lemma pipeline_failed:
  assumes "list_all (\<lambda>(oper, y). (additive oper \<or> multiplicative oper) \<and> isNumber F y) rest"
    and "list_all (\<lambda>t. additive t \<or> multiplicative t) stack"
    and "postfixStack F postfix [] = Inl err"
  shows "pipelineFrom F (restTokens rest) postfix stack = Inl err"
  using assms
proof (induction rest arbitrary: postfix stack)
  case Nil
  have "drainStack postfix stack = Inr (postfix @ stack)"
    using arith_parenCount [OF Nil.prems(2)] by (simp add: drainStack_parenCount)
  moreover have "evaluatePostfix F (postfix @ stack) = Inl err"
    using Nil.prems(3) by (simp add: evaluatePostfixLoop_postfixStack postfixStack_append)
  ultimately show ?case by (simp add: pipelineFrom_def restTokens_def)
next
  case (Cons oy rest)
  obtain oper y where oy: "oy = (oper, y)" by (cases oy)
  with Cons.prems(1) have oper: "additive oper \<or> multiplicative oper" and y: "isNumber F y"
    and rest: "list_all (\<lambda>(oper, y). (additive oper \<or> multiplicative oper) \<and> isNumber F y) rest"
    by simp_all
  obtain n where pop: "popOperators oper postfix stack = (postfix @ take n stack, drop n stack)"
    using popOperators_prefix by blast
  have "list_all (\<lambda>t. additive t \<or> multiplicative t) (drop n stack)"
    using Cons.prems(2) by (auto simp: list_all_iff dest: in_set_dropD)
  with oper have st: "list_all (\<lambda>t. additive t \<or> multiplicative t) (oper # drop n stack)"
    by simp
  have ev: "postfixStack F ((postfix @ take n stack) @ [y]) [] = Inl err"
    using Cons.prems(3) by (simp add: postfixStack_append)
  have "pipelineFrom F (restTokens (oy # rest)) postfix stack =
      pipelineFrom F (restTokens rest) ((postfix @ take n stack) @ [y]) (oper # drop n stack)"
    using pipelineFrom_step [OF oper y] pop by (simp add: oy restTokens_Cons)
  also have "\<dots> = Inl err"
    using rest st ev by (rule Cons.IH)
  finally show ?case .
qed

lemma restValues_Cons:
  "ParseFloat F y = Some w \<Longrightarrow> restValues F ((oper, y) # rest) = (oper, w) # restValues F rest"
  by (simp add: restValues_def)

lemma pipeline_refCont:
  assumes "list_all (\<lambda>(oper, y). (additive oper \<or> multiplicative oper) \<and> isNumber F y) rest"
    and "wfState pending accop"
    and "postfixStack F postfix [] = Inr (valStack pending t accop)"
  shows "pipelineFrom F (restTokens rest) postfix (opStack pending accop) =
         refCont F accop t
           ((case pending of None \<Rightarrow> [] | Some mw \<Rightarrow> [mw]) @ restValues F rest)"
  using assms
proof (induction rest arbitrary: postfix pending accop t)
  case Nil
  let ?pendingOps = "case pending of None \<Rightarrow> [] | Some (m, w) \<Rightarrow> [m]"
  let ?accOps = "case accop of None \<Rightarrow> [] | Some (acc, a) \<Rightarrow> [a]"
  note wf = Nil.prems(2)
  have "drainStack postfix (opStack pending accop) = Inr (postfix @ opStack pending accop)"
    using arith_parenCount [OF opStack_arith [OF wf]] by (simp add: drainStack_parenCount)
  then have "pipelineFrom F (restTokens []) postfix (opStack pending accop) =
      evaluatePostfix F (postfix @ ?pendingOps @ ?accOps)"
    by (simp add: pipelineFrom_def restTokens_def opStack_def)
  also have "\<dots> =
      (case postfixStack F (?pendingOps @ ?accOps @ []) (valStack pending t accop) of
         Inl err \<Rightarrow> Inl err
       | Inr stack1 \<Rightarrow>
           if length stack1 \<noteq> 1 then Inl ErrorEvaluatingExpression else Inr (hd stack1))"
    using Nil.prems(3) by (simp add: evaluatePostfixLoop_postfixStack postfixStack_append)
  also have "\<dots> =
      (case flushPending F pending t of
         Inl err \<Rightarrow> Inl err
       | Inr t1 \<Rightarrow> Inr (combine F accop t1))"
    unfolding flush_pending_stack [OF wf] flush_accop_stack [OF wf]
    by (simp split: sum.splits)
  also have "\<dots> = refCont F accop t
      ((case pending of None \<Rightarrow> [] | Some mw \<Rightarrow> [mw]) @ restValues F [])"
    unfolding refCont_pending [OF wf]
    by (simp add: restValues_def refCont_Nil split: sum.splits)
  finally show ?case .
next
  case (Cons oy rest)
  let ?pendingOps = "case pending of None \<Rightarrow> [] | Some (m, w) \<Rightarrow> [m]"
  let ?accOps = "case accop of None \<Rightarrow> [] | Some (acc, a) \<Rightarrow> [a]"
  let ?accVals = "case accop of None \<Rightarrow> [] | Some (acc, a) \<Rightarrow> [acc]"
  note wf = Cons.prems(2)
  obtain oper y where oy: "oy = (oper, y)" by (cases oy)
  with Cons.prems(1) have oper: "additive oper \<or> multiplicative oper" and y: "isNumber F y"
    and rest: "list_all (\<lambda>(oper, y). (additive oper \<or> multiplicative oper) \<and> isNumber F y) rest"
    by simp_all
  from y obtain w where w: "ParseFloat F y = Some w" by (auto simp: isNumber_def)
  have ref: "refCont F accop t
        ((case pending of None \<Rightarrow> [] | Some mw \<Rightarrow> [mw]) @ restValues F (oy # rest)) =
      (case flushPending F pending t of
         Inl err \<Rightarrow> Inl err
       | Inr t1 \<Rightarrow> refCont F accop t1 ((oper, w) # restValues F rest))"
    unfolding refCont_pending [OF wf]
    by (simp add: oy restValues_Cons [OF w] split: sum.splits)
  show ?case
  proof (cases "additive oper")
    case True
    let ?postfix1 = "postfix @ opStack pending accop @ [y]"
    have "popOperators oper postfix (opStack pending accop) =
        (postfix @ opStack pending accop, [])"
      using True opStack_arith [OF wf] by (rule popOperators_additive)
    then have step: "pipelineFrom F (restTokens (oy # rest)) postfix (opStack pending accop) =
        pipelineFrom F (restTokens rest) ?postfix1 [oper]"
      using pipelineFrom_step [OF oper y] by (simp add: oy restTokens_Cons)
    have "postfixStack F ?postfix1 [] =
        postfixStack F (?pendingOps @ ?accOps @ [y]) (valStack pending t accop)"
      using Cons.prems(3) by (simp add: postfixStack_append opStack_def)
    also have "\<dots> =
        (case flushPending F pending t of
           Inl err \<Rightarrow> Inl err
         | Inr t1 \<Rightarrow> Inr [w, combine F accop t1])"
      unfolding flush_pending_stack [OF wf] flush_accop_stack [OF wf]
      by (simp add: postfixStack_number [OF w] split: sum.splits)
    finally have ev: "postfixStack F ?postfix1 [] =
        (case flushPending F pending t of
           Inl err \<Rightarrow> Inl err
         | Inr t1 \<Rightarrow> Inr [w, combine F accop t1])" .
    show ?thesis
    proof (cases "flushPending F pending t")
      case (Inl err)
      with ev have "postfixStack F ?postfix1 [] = Inl err" by simp
      with rest have "pipelineFrom F (restTokens rest) ?postfix1 [oper] = Inl err"
        using True by (intro pipeline_failed) simp_all
      with step ref Inl show ?thesis by simp
    next
      case (Inr t1)
      let ?accop1 = "Some (combine F accop t1, oper)"
      have wf1: "wfState None ?accop1"
        using True by (simp add: wfState_def)
      have ev1: "postfixStack F ?postfix1 [] = Inr (valStack None w ?accop1)"
        using ev Inr by (simp add: valStack_def)
      from Cons.IH [OF rest wf1 ev1]
      have "pipelineFrom F (restTokens rest) ?postfix1 [oper] =
          refCont F ?accop1 w (restValues F rest)"
        by (simp add: opStack_def)
      with step ref Inr show ?thesis by (simp add: refCont_additive [OF True])
    qed
  next
    case False
    with oper have mult: "multiplicative oper" by simp
    let ?postfix1 = "postfix @ ?pendingOps @ [y]"
    have step: "pipelineFrom F (restTokens (oy # rest)) postfix (opStack pending accop) =
        pipelineFrom F (restTokens rest) ?postfix1 (oper # ?accOps)"
      using pipelineFrom_step [OF oper y] popOperators_multiplicative [OF mult wf]
      by (simp add: oy restTokens_Cons)
    have "postfixStack F ?postfix1 [] =
        postfixStack F (?pendingOps @ [y]) (valStack pending t accop)"
      using Cons.prems(3) by (simp add: postfixStack_append)
    also have "\<dots> =
        (case flushPending F pending t of
           Inl err \<Rightarrow> Inl err
         | Inr t1 \<Rightarrow> Inr (w # t1 # ?accVals))"
      unfolding flush_pending_stack [OF wf]
      by (simp add: postfixStack_number [OF w] split: sum.splits)
    finally have ev: "postfixStack F ?postfix1 [] =
        (case flushPending F pending t of
           Inl err \<Rightarrow> Inl err
         | Inr t1 \<Rightarrow> Inr (w # t1 # ?accVals))" .
    show ?thesis
    proof (cases "flushPending F pending t")
      case (Inl err)
      with ev have failed: "postfixStack F ?postfix1 [] = Inl err" by simp
      have "list_all (\<lambda>t. additive t \<or> multiplicative t) (oper # ?accOps)"
        using mult wf by (auto simp: wfState_def split: option.splits)
      with rest have "pipelineFrom F (restTokens rest) ?postfix1 (oper # ?accOps) = Inl err"
        using failed by (rule pipeline_failed)
      with step ref Inl show ?thesis by simp
    next
      case (Inr t1)
      have wf1: "wfState (Some (oper, w)) accop"
        using mult wf by (simp add: wfState_def)
      have ev1: "postfixStack F ?postfix1 [] = Inr (valStack (Some (oper, w)) t1 accop)"
        using ev Inr by (simp add: valStack_def)
      from Cons.IH [OF rest wf1 ev1]
      have "pipelineFrom F (restTokens rest) ?postfix1 (oper # ?accOps) =
          refCont F accop t1 ((oper, w) # restValues F rest)"
        by (simp add: opStack_def)
      with step ref Inr show ?thesis by simp
    qed
  qed
qed

text \<open>
  C8. For every expression that is a number followed by operators among \<open>+ - * /\<close>, each
  with a number to its right, the pipeline (the tokens through \<open>infixToPostfix\<close>, the
  postfix sequence through \<open>evaluatePostfix\<close>) returns what the reference evaluation
  returns on the values of the numbers: the same number, computed by the same
  operations in the same grouping, or the same error \<open>errDivideByZero\<close>. This holds for
  every arithmetic on the numbers, and so does not depend on laws such as associativity
  that rounding breaks. \<open>evaluateExpression\<close> on a string with these tokens returns the
  same.
\<close>

theorem pipeline_matches_reference:
  assumes "ParseFloat F x = Some v"
    and "list_all (\<lambda>(oper, y).
           oper \<in> set [addOperator, subtractOperator, multiplyOperator, divideOperator] \<and>
           isNumber F y) rest"
    and "tokenize (removeSpaces input) = Inr (exprTokens x rest)"
  shows "pipeline F (exprTokens x rest) = reference F v (restValues F rest) \<and>
         evaluateExpression F input = reference F v (restValues F rest)"
proof -
  have rest: "list_all (\<lambda>(oper, y). (additive oper \<or> multiplicative oper) \<and> isNumber F y) rest"
    using assms(2) by (auto simp: list_all_iff additive_def multiplicative_def)
  have x: "isNumber F x" using assms(1) by (simp add: isNumber_def)
  have "pipeline F (exprTokens x rest) = pipelineFrom F (restTokens rest) [x] []"
    using x by (simp add: pipeline_def pipelineFrom_def infixToPostfix_def exprTokens_def
        restTokens_def split: sum.splits prod.splits)
  also have "\<dots> = refCont F None v ([] @ restValues F rest)"
    using pipeline_refCont [OF rest, of None None "[x]" v] assms(1)
    by (simp add: wfState_def valStack_def opStack_def postfixStack_number)
  also have "\<dots> = reference F v (restValues F rest)"
    by (simp add: refCont_def reference_def combine_def split: sum.splits prod.splits)
  finally have main: "pipeline F (exprTokens x rest) = reference F v (restValues F rest)" .
  moreover have "evaluateExpression F input = pipeline F (exprTokens x rest)"
    using assms(3) by (simp add: pipeline_def)
  ultimately show ?thesis by simp
qed

theorem pipeline_matches_reference_witness:
  "ParseFloat exact ''8'' = Some (Fin 8) \<and>
   list_all (\<lambda>(oper, y).
      oper \<in> set [addOperator, subtractOperator, multiplyOperator, divideOperator] \<and>
      isNumber exact y) [(''-'', ''6''), (''/'', ''3''), (''*'', ''2''), (''+'', ''1'')] \<and>
   tokenize (removeSpaces ''8 - 6 / 3 * 2 + 1'') =
     Inr (exprTokens ''8'' [(''-'', ''6''), (''/'', ''3''), (''*'', ''2''), (''+'', ''1'')]) \<and>
   reference exact (Fin 8)
     (restValues exact [(''-'', ''6''), (''/'', ''3''), (''*'', ''2''), (''+'', ''1'')]) =
     Inr (Fin 5) \<and>
   pipeline exact [''8'', ''-'', ''6'', ''/'', ''3'', ''*'', ''2'', ''+'', ''1''] = Inr (Fin 5) \<and>
   evaluateExpression exact ''8 - 6 / 3 * 2 + 1'' = Inr (Fin 5)"
proof -
  let ?rest = "[(''-'', ''6''), (''/'', ''3''), (''*'', ''2''), (''+'', ''1'')]"
  have x: "ParseFloat exact ''8'' = Some (Fin 8)"
    by (simp add: number_defs IsDigit_def exact_def)
  have r: "list_all (\<lambda>(oper, y).
      oper \<in> set [addOperator, subtractOperator, multiplyOperator, divideOperator] \<and>
      isNumber exact y) ?rest"
    by (simp add: number_defs IsDigit_def const_defs)
  have t: "tokenize (removeSpaces ''8 - 6 / 3 * 2 + 1'') = Inr (exprTokens ''8'' ?rest)"
    by (simp add: removeSpaces_def token_defs exprTokens_def restTokens_def)
  have v: "reference exact (Fin 8) (restValues exact ?rest) = Inr (Fin 5)"
    by (simp add: reference_def restValues_def calc_defs exact_defs)
  have e: "exprTokens ''8'' ?rest = [''8'', ''-'', ''6'', ''/'', ''3'', ''*'', ''2'', ''+'', ''1'']"
    by (simp add: exprTokens_def restTokens_def)
  from pipeline_matches_reference [OF x r t] x r t v e show ?thesis by simp
qed

end
